theory Spec2Isabelle
  imports Main
begin

section \<open>The training loop of \<open>3_Training_Neural_Networks.ipynb\<close>\<close>

text \<open>
  The notebook's training cell:
  \<^verbatim>\<open>
  epochs = 5
  for e in range(epochs):
      running_loss = 0
      for images, labels in trainloader:
          # Flatten MNIST images into a 784 long vector
          images = images.view(images.shape[0], -1)

          # TODO: Training pass
          optimizer.zero_grad()
          output = model(images)
          loss = criterion(output, labels)
          loss.backward()
          optimizer.step()

          running_loss += loss.item()
      else:
          print(f"Training loss: {running_loss/len(trainloader)}")
  \<close>
  Every non-trivial operation is a call into PyTorch, which is not part of the
  repository. The calls are parameters of the model below; what the notebook itself
  contributes, and what is verified here, is the control flow and the data flow
  between the calls.
\<close>

subsection \<open>Exceptions\<close>

text \<open>The statements of the training pass, in the order of the source.\<close>

datatype stage = SView | SZeroGrad | SForward | SCriterion | SBackward | SStep | SItem

text \<open>
  An exception that leaves the cell comes out of one of the PyTorch calls or is the
  \<open>ZeroDivisionError\<close> of Python's own \<open>/\<close> in the \<open>print\<close> statement. The cell has
  no handler, so an exception raised inside a call reaches the caller as the object the
  call raised (\<open>'e\<close>), with the traceback Python has grown on its way out: the entry of
  the cell's own frame in it is the statement of the training pass that was executing.
  \<open>Raised st e\<close> is the exception \<open>e\<close> with that statement \<open>st\<close>.
\<close>

datatype 'e error = Raised stage 'e | ZeroDivisionError

subsection \<open>The PyTorch objects the cell uses\<close>

text \<open>
  \<open>'t\<close> is the type of tensors (images, labels, network output and loss are all
  \<open>torch.Tensor\<close>), \<open>'p\<close> the model's parameter collection, \<open>'g\<close> the gradient slots of
  the parameters, \<open>'v\<close> Python's floats and \<open>'e\<close> the exceptions PyTorch raises.

  A call that only computes a value returns \<open>Inl e\<close> when it raises \<open>e\<close>. A call that
  mutates in place (\<open>zero_grad\<close>, \<open>backward\<close>, \<open>step\<close>) returns the contents it leaves
  behind together with the exception it raised, if any: Python has no rollback, so
  whatever was written before the raise stays written.

  The types say what each call may touch: \<open>model\<close> reads the parameters,
  \<open>zero_grad\<close> and \<open>backward\<close> write the gradient slots, \<open>step\<close> reads the gradient
  slots and writes the parameters (the learning rate is part of \<open>step\<close>).
  Floating-point arithmetic is not modelled: \<open>py_zero\<close> is the initial
  \<open>running_loss = 0\<close>, \<open>py_add\<close> is \<open>+=\<close> and \<open>py_truediv\<close> is \<open>/\<close> by
  a non-zero \<open>len(trainloader)\<close>.
\<close>

record ('t, 'p, 'g, 'v, 'e) torch =
  view :: "'t \<Rightarrow> 'e + 't"
  zero_grad :: "'g \<Rightarrow> 'g \<times> 'e option"
  model :: "'p \<Rightarrow> 't \<Rightarrow> 'e + 't"
  criterion :: "'t \<Rightarrow> 't \<Rightarrow> 'e + 't"
  backward :: "'t \<Rightarrow> 'g \<Rightarrow> 'g \<times> 'e option"
  step :: "'g \<Rightarrow> 'p \<Rightarrow> 'p \<times> 'e option"
  item :: "'t \<Rightarrow> 'e + 'v"
  py_zero :: 'v
  py_add :: "'v \<Rightarrow> 'v \<Rightarrow> 'v"
  py_truediv :: "'v \<Rightarrow> nat \<Rightarrow> 'v"

text \<open>
  \<open>trainloader = DataLoader(trainset, batch_size=64, shuffle=True)\<close>: \<open>len\<close> is
  \<open>len(trainloader)\<close>, the number of batches of every traversal, and
  \<open>batch_at L k i\<close> is the \<open>i\<close>-th batch \<open>(images, labels)\<close> of the \<open>k\<close>-th traversal
  (with \<open>shuffle=True\<close> the batches differ from one traversal to the next).
\<close>

record 't loader =
  len :: nat
  batch_at :: "nat \<Rightarrow> nat \<Rightarrow> 't \<times> 't"

definition traversal :: "'t loader \<Rightarrow> nat \<Rightarrow> ('t \<times> 't) list" where
  "traversal L k = map (batch_at L k) [0..<len L]"

subsection \<open>State\<close>

text \<open>
  \<open>params\<close> and \<open>grads\<close> are the mutable PyTorch state, \<open>printed\<close> the values the
  cell has printed so far. \<open>calls\<close> is a history variable: the PyTorch calls made so
  far, each with the arguments and the state it was invoked on. A call is recorded
  when it is invoked, whether or not it then raises.
\<close>

datatype ('t, 'p, 'g) call =
    View 't
  | ZeroGrad 'g
  | Forward 'p 't
  | Criterion 't 't
  | Backward 't 'g
  | Step 'g
  | Item 't

record ('t, 'p, 'g, 'v) state =
  params :: 'p
  grads :: 'g
  printed :: "'v list"
  calls :: "('t, 'p, 'g) call list"

definition called :: "('t, 'p, 'g) call \<Rightarrow> ('t, 'p, 'g, 'v) state \<Rightarrow> ('t, 'p, 'g, 'v) state" where
  "called a s = s\<lparr>calls := calls s @ [a]\<rparr>"

definition raised :: "stage \<Rightarrow> 'e + 'a \<Rightarrow> 'e error + 'a" where
  "raised st r = (case r of Inl e \<Rightarrow> Inl (Raised st e) | Inr a \<Rightarrow> Inr a)"

definition raised_opt :: "stage \<Rightarrow> 'e option \<Rightarrow> 'e error + unit" where
  "raised_opt st r = (case r of Some e \<Rightarrow> Inl (Raised st e) | None \<Rightarrow> Inr ())"

text \<open>Sequencing: an exception skips the rest and keeps the state reached.\<close>

definition and_then ::
  "('s \<Rightarrow> 's \<times> ('x + 'a)) \<Rightarrow> ('a \<Rightarrow> 's \<Rightarrow> 's \<times> ('x + 'b)) \<Rightarrow> 's \<Rightarrow> 's \<times> ('x + 'b)" where
  "and_then m f s = (case m s of (s', Inl e) \<Rightarrow> (s', Inl e) | (s', Inr a) \<Rightarrow> f a s')"

subsection \<open>The statements of the loop body\<close>

definition do_view ::
  "('t, 'p, 'g, 'v, 'e) torch \<Rightarrow> 't \<Rightarrow> ('t, 'p, 'g, 'v) state \<Rightarrow>
   ('t, 'p, 'g, 'v) state \<times> ('e error + 't)" where
  "do_view c images s = (called (View images) s, raised SView (view c images))"

definition do_zero_grad ::
  "('t, 'p, 'g, 'v, 'e) torch \<Rightarrow> ('t, 'p, 'g, 'v) state \<Rightarrow>
   ('t, 'p, 'g, 'v) state \<times> ('e error + unit)" where
  "do_zero_grad c s =
     (case zero_grad c (grads s) of
        (g, r) \<Rightarrow> ((called (ZeroGrad (grads s)) s)\<lparr>grads := g\<rparr>, raised_opt SZeroGrad r))"

definition do_model ::
  "('t, 'p, 'g, 'v, 'e) torch \<Rightarrow> 't \<Rightarrow> ('t, 'p, 'g, 'v) state \<Rightarrow>
   ('t, 'p, 'g, 'v) state \<times> ('e error + 't)" where
  "do_model c images s =
     (called (Forward (params s) images) s, raised SForward (model c (params s) images))"

definition do_criterion ::
  "('t, 'p, 'g, 'v, 'e) torch \<Rightarrow> 't \<Rightarrow> 't \<Rightarrow> ('t, 'p, 'g, 'v) state \<Rightarrow>
   ('t, 'p, 'g, 'v) state \<times> ('e error + 't)" where
  "do_criterion c output labels s =
     (called (Criterion output labels) s, raised SCriterion (criterion c output labels))"

definition do_backward ::
  "('t, 'p, 'g, 'v, 'e) torch \<Rightarrow> 't \<Rightarrow> ('t, 'p, 'g, 'v) state \<Rightarrow>
   ('t, 'p, 'g, 'v) state \<times> ('e error + unit)" where
  "do_backward c loss s =
     (case backward c loss (grads s) of
        (g, r) \<Rightarrow> ((called (Backward loss (grads s)) s)\<lparr>grads := g\<rparr>, raised_opt SBackward r))"

definition do_step ::
  "('t, 'p, 'g, 'v, 'e) torch \<Rightarrow> ('t, 'p, 'g, 'v) state \<Rightarrow>
   ('t, 'p, 'g, 'v) state \<times> ('e error + unit)" where
  "do_step c s =
     (case step c (grads s) (params s) of
        (p, r) \<Rightarrow> ((called (Step (grads s)) s)\<lparr>params := p\<rparr>, raised_opt SStep r))"

definition do_item ::
  "('t, 'p, 'g, 'v, 'e) torch \<Rightarrow> 't \<Rightarrow> ('t, 'p, 'g, 'v) state \<Rightarrow>
   ('t, 'p, 'g, 'v) state \<times> ('e error + 'v)" where
  "do_item c loss s = (called (Item loss) s, raised SItem (item c loss))"

text \<open>
  The body of the inner loop up to \<open>loss.item()\<close>; it returns the state it leaves and
  either the exception that ended it or the float that is added to \<open>running_loss\<close>.
\<close>

definition training_pass ::
  "('t, 'p, 'g, 'v, 'e) torch \<Rightarrow> 't \<times> 't \<Rightarrow> ('t, 'p, 'g, 'v) state \<Rightarrow>
   ('t, 'p, 'g, 'v) state \<times> ('e error + 'v)" where
  "training_pass c b s =
     (case b of (images, labels) \<Rightarrow>
       (and_then (do_view c images) (\<lambda>images.
        and_then (do_zero_grad c) (\<lambda>_.
        and_then (do_model c images) (\<lambda>output.
        and_then (do_criterion c output labels) (\<lambda>loss.
        and_then (do_backward c loss) (\<lambda>_.
        and_then (do_step c) (\<lambda>_.
        do_item c loss))))))) s)"

text \<open>
  The inner \<open>for\<close> loop over one traversal of the loader, with \<open>running_loss\<close> as
  accumulator.
\<close>

fun run_batches ::
  "('t, 'p, 'g, 'v, 'e) torch \<Rightarrow> ('t \<times> 't) list \<Rightarrow> 'v \<Rightarrow> ('t, 'p, 'g, 'v) state \<Rightarrow>
   ('t, 'p, 'g, 'v) state \<times> ('e error + 'v)" where
  "run_batches c [] running_loss s = (s, Inr running_loss)"
| "run_batches c (b # bs) running_loss s =
     (case training_pass c b s of
        (s', Inl err) \<Rightarrow> (s', Inl err)
      | (s', Inr v) \<Rightarrow> run_batches c bs (py_add c running_loss v) s')"

text \<open>
  One iteration of the outer loop. The inner loop has no \<open>break\<close>, so its \<open>else\<close>
  branch runs whenever the loop ends without an exception; \<open>/\<close> raises
  \<open>ZeroDivisionError\<close> when \<open>len(trainloader)\<close> is 0.
\<close>

definition epoch ::
  "('t, 'p, 'g, 'v, 'e) torch \<Rightarrow> 't loader \<Rightarrow> nat \<Rightarrow> ('t, 'p, 'g, 'v) state \<Rightarrow>
   ('t, 'p, 'g, 'v) state \<times> 'e error option" where
  "epoch c L e s =
     (case run_batches c (traversal L e) (py_zero c) s of
        (s', Inl err) \<Rightarrow> (s', Some err)
      | (s', Inr running_loss) \<Rightarrow>
          if len L = 0 then (s', Some ZeroDivisionError)
          else (s'\<lparr>printed := printed s' @ [py_truediv c running_loss (len L)]\<rparr>, None))"

fun run_epochs ::
  "('t, 'p, 'g, 'v, 'e) torch \<Rightarrow> 't loader \<Rightarrow> nat list \<Rightarrow> ('t, 'p, 'g, 'v) state \<Rightarrow>
   ('t, 'p, 'g, 'v) state \<times> 'e error option" where
  "run_epochs c L [] s = (s, None)"
| "run_epochs c L (e # es) s =
     (case epoch c L e s of
        (s', Some err) \<Rightarrow> (s', Some err)
      | (s', None) \<Rightarrow> run_epochs c L es s')"

text \<open>
  The whole cell, with \<open>epochs\<close> as a parameter (a Python int): \<open>range(epochs)\<close> is
  empty when \<open>epochs \<le> 0\<close>. The result is the final state and the exception that ended
  the cell, if any.
\<close>

definition train ::
  "('t, 'p, 'g, 'v, 'e) torch \<Rightarrow> 't loader \<Rightarrow> int \<Rightarrow> ('t, 'p, 'g, 'v) state \<Rightarrow>
   ('t, 'p, 'g, 'v) state \<times> 'e error option" where
  "train c L epochs s = run_epochs c L [0..<nat epochs] s"

subsection \<open>Notions used to state the properties\<close>

text \<open>The statement of the training pass that makes a call.\<close>

fun stage_of :: "('t, 'p, 'g) call \<Rightarrow> stage" where
  "stage_of (View _) = SView"
| "stage_of (ZeroGrad _) = SZeroGrad"
| "stage_of (Forward _ _) = SForward"
| "stage_of (Criterion _ _) = SCriterion"
| "stage_of (Backward _ _) = SBackward"
| "stage_of (Step _) = SStep"
| "stage_of (Item _) = SItem"

definition pass_stages :: "stage list" where
  "pass_stages = [SView, SZeroGrad, SForward, SCriterion, SBackward, SStep, SItem]"

text \<open>
  The parameters reached from \<open>p\<close> when the only calls of a history that write them are
  its optimizer steps, applied in order.
\<close>

fun params_after :: "('t, 'p, 'g, 'v, 'e) torch \<Rightarrow> 'p \<Rightarrow> ('t, 'p, 'g) call list \<Rightarrow> 'p" where
  "params_after c p [] = p"
| "params_after c p (Step g # tr) = params_after c (fst (step c g p)) tr"
| "params_after c p (_ # tr) = params_after c p tr"

text \<open>
  Every forward pass of a history read the parameters as all the optimizer steps
  before it left them.
\<close>

fun forward_reads :: "('t, 'p, 'g, 'v, 'e) torch \<Rightarrow> 'p \<Rightarrow> ('t, 'p, 'g) call list \<Rightarrow> bool" where
  "forward_reads c p [] = True"
| "forward_reads c p (Forward q x # tr) = (q = p \<and> forward_reads c p tr)"
| "forward_reads c p (Step g # tr) = forward_reads c (fst (step c g p)) tr"
| "forward_reads c p (_ # tr) = forward_reads c p tr"


text \<open>
  Two runs from \<open>s1\<close> and \<open>s2\<close> that end in \<open>s1'\<close> and \<open>s2'\<close> agree: the same
  PyTorch state at the end, and the same calls made and values printed on the way.
\<close>

definition same_run ::
  "('t, 'p, 'g, 'v) state \<Rightarrow> ('t, 'p, 'g, 'v) state \<Rightarrow>
   ('t, 'p, 'g, 'v) state \<Rightarrow> ('t, 'p, 'g, 'v) state \<Rightarrow> bool" where
  "same_run s1 s2 s1' s2' \<longleftrightarrow>
     params s1' = params s2' \<and> grads s1' = grads s2' \<and>
     (\<exists>tr. calls s1' = calls s1 @ tr \<and> calls s2' = calls s2 @ tr) \<and>
     (\<exists>ms. printed s1' = printed s1 @ ms \<and> printed s2' = printed s2 @ ms)"

subsection \<open>A small instance\<close>

text \<open>
  Integers for tensors and floats, a weight and a bias as parameters, and strings as
  exceptions. The gradient of the toy loss is the loss itself for the weight and 1 for
  the bias; \<open>backward\<close> adds to the slots, as PyTorch does.
\<close>

definition toy_torch :: "(int, int \<times> int, int \<times> int, int, string) torch" where
  "toy_torch =
     \<lparr>view = Inr,
      zero_grad = (\<lambda>g. ((0, 0), None)),
      model = (\<lambda>p x. Inr (fst p * x + snd p)),
      criterion = (\<lambda>out y. Inr (out - y)),
      backward = (\<lambda>l g. ((fst g + l, snd g + 1), None)),
      step = (\<lambda>g p. ((fst p - fst g, snd p - snd g), None)),
      item = (\<lambda>l. Inr (l * l)),
      py_zero = 0,
      py_add = (+),
      py_truediv = (\<lambda>a n. a div int n)\<rparr>"

text \<open>Two batches per traversal; the labels change from one traversal to the next.\<close>

definition toy_loader :: "int loader" where
  "toy_loader = \<lparr>len = 2, batch_at = (\<lambda>k i. (int i + 1, int k))\<rparr>"

definition empty_loader :: "int loader" where
  "empty_loader = \<lparr>len = 0, batch_at = (\<lambda>k i. (0, 0))\<rparr>"

text \<open>A loader that replays the same two batches in every traversal.\<close>

definition replay_loader :: "int loader" where
  "replay_loader = \<lparr>len = 2, batch_at = (\<lambda>k i. (int i + 1, 0))\<rparr>"

text \<open>Another one that yields these batches in its first two traversals only.\<close>

definition other_loader :: "int loader" where
  "other_loader = \<lparr>len = 2, batch_at = (\<lambda>k i. if k < 2 then (int i + 1, 0) else (5, 5))\<rparr>"

text \<open>Stale gradients are in the slots when the cell starts.\<close>

definition toy_state :: "(int, int \<times> int, int \<times> int, int) state" where
  "toy_state = \<lparr>params = (1, 0), grads = (7, 7), printed = [], calls = []\<rparr>"

text \<open>
  The same parameters later in the session, with other stale gradients and after other
  output and calls.
\<close>

definition later_state :: "(int, int \<times> int, int \<times> int, int) state" where
  "later_state = \<lparr>params = (1, 0), grads = (0, 5), printed = [42], calls = [Step (7, 7)]\<rparr>"

text \<open>
  The forward pass raises once the weight has become 3, which happens in the second
  batch of the second epoch.
\<close>

definition forward_fails :: "(int, int \<times> int, int \<times> int, int, string) torch" where
  "forward_fails =
     toy_torch\<lparr>model := (\<lambda>p x. if fst p = 3 then Inl ''size mismatch''
                                else Inr (fst p * x + snd p))\<rparr>"

text \<open>The loss evaluation raises the same exception, on the output of that batch.\<close>

definition criterion_fails :: "(int, int \<times> int, int \<times> int, int, string) torch" where
  "criterion_fails =
     toy_torch\<lparr>criterion := (\<lambda>out y. if out = 3 then Inl ''size mismatch''
                                     else Inr (out - y))\<rparr>"

text \<open>The backward pass raises the same exception, on the loss of that batch.\<close>

definition backward_fails :: "(int, int \<times> int, int \<times> int, int, string) torch" where
  "backward_fails =
     toy_torch\<lparr>backward := (\<lambda>l g. if l = 2 then (g, Some ''size mismatch'')
                                  else ((fst g + l, snd g + 1), None))\<rparr>"


section \<open>Structure of a run\<close>

subsection \<open>The training pass and the two loops\<close>

lemmas stmt_defs = do_view_def do_zero_grad_def do_model_def do_criterion_def do_backward_def
  do_step_def do_item_def called_def raised_def raised_opt_def and_then_def

lemma training_pass_ok:
  "training_pass c (im, lb) s = (s', Inr v) \<longleftrightarrow>
   (\<exists>x g0 out l g1 p1.
      view c im = Inr x \<and> zero_grad c (grads s) = (g0, None) \<and>
      model c (params s) x = Inr out \<and> criterion c out lb = Inr l \<and>
      backward c l g0 = (g1, None) \<and> step c g1 (params s) = (p1, None) \<and>
      item c l = Inr v \<and>
      s' = s\<lparr>params := p1, grads := g1,
              calls := calls s @ [View im, ZeroGrad (grads s), Forward (params s) x,
                Criterion out lb, Backward l g0, Step g1, Item l]\<rparr>)"
  unfolding training_pass_def stmt_defs
  by (auto split: sum.splits option.splits prod.splits)

lemma length_traversal: "length (traversal L k) = len L"
  by (simp add: traversal_def)

lemma nth_traversal: "i < len L \<Longrightarrow> traversal L k ! i = batch_at L k i"
  by (simp add: traversal_def)

lemma take_Suc_traversal:
  "i < len L \<Longrightarrow> take (Suc i) (traversal L k) = take i (traversal L k) @ [batch_at L k i]"
  by (simp add: take_Suc_conv_app_nth length_traversal nth_traversal)

lemma traversal_split:
  "i < len L \<Longrightarrow>
   traversal L k = take i (traversal L k) @ batch_at L k i # drop (Suc i) (traversal L k)"
  using id_take_nth_drop [of i "traversal L k"] by (simp add: length_traversal nth_traversal)

lemma run_batches_append:
  "run_batches c (xs @ ys) acc s =
     (case run_batches c xs acc s of
        (s', Inl err) \<Rightarrow> (s', Inl err)
      | (s', Inr a) \<Rightarrow> run_batches c ys a s')"
  by (induction xs arbitrary: acc s) (auto split: prod.splits sum.splits)

lemma run_epochs_append:
  "run_epochs c L (xs @ ys) s =
     (case run_epochs c L xs s of
        (s', Some err) \<Rightarrow> (s', Some err)
      | (s', None) \<Rightarrow> run_epochs c L ys s')"
  by (induction xs arbitrary: s) (auto split: prod.splits option.splits)

lemma run_batches_ok_split:
  "run_batches c (xs @ ys) acc s = (s', Inr a) \<Longrightarrow>
   \<exists>s1 a1. run_batches c xs acc s = (s1, Inr a1) \<and> run_batches c ys a1 s1 = (s', Inr a)"
  by (auto simp: run_batches_append split: prod.splits sum.splits)

lemma run_epochs_ok_split:
  "run_epochs c L (xs @ ys) s = (s', None) \<Longrightarrow>
   \<exists>s1. run_epochs c L xs s = (s1, None) \<and> run_epochs c L ys s1 = (s', None)"
  by (auto simp: run_epochs_append split: prod.splits option.splits)

lemma train_split:
  "k \<le> nat E \<Longrightarrow>
   train c L E s =
     (case train c L (int k) s of
        (s', Some err) \<Rightarrow> (s', Some err)
      | (s', None) \<Rightarrow> run_epochs c L [k..<nat E] s')"
proof -
  assume "k \<le> nat E"
  then have "[0..<nat E] = [0..<k] @ [k..<nat E]"
    using upt_add_eq_append [of 0 k "nat E - k"] by simp
  then show ?thesis
    by (simp add: train_def run_epochs_append)
qed

lemma train_Suc:
  "train c L (int (Suc k)) s =
     (case train c L (int k) s of
        (s', Some err) \<Rightarrow> (s', Some err)
      | (s', None) \<Rightarrow> epoch c L k s')"
  unfolding train_def nat_int
  by (simp add: run_epochs_append split: prod.splits option.splits)

lemma train_ok_epoch:
  assumes "train c L E s = (sF, None)" and "int k < E"
  shows "\<exists>sk sk'. train c L (int k) s = (sk, None) \<and> epoch c L k sk = (sk', None) \<and>
           train c L (int (Suc k)) s = (sk', None) \<and>
           run_epochs c L [Suc k..<nat E] sk' = (sF, None)"
proof -
  from assms(2) have k: "k < nat E" by simp
  then have "[k..<nat E] = k # [Suc k..<nat E]"
    by (simp add: upt_conv_Cons)
  with assms(1) train_split [of k E c L s] k
  obtain sk sk' where "train c L (int k) s = (sk, None)" "epoch c L k sk = (sk', None)"
    "run_epochs c L [Suc k..<nat E] sk' = (sF, None)"
    by (auto split: prod.splits option.splits)
  then show ?thesis
    unfolding train_Suc by simp
qed

lemma train_continues:
  assumes "train c L (int k) s = (sk, None)" and "int k \<le> E"
  shows "train c L E s = run_epochs c L [k..<nat E] sk"
  using train_split [of k E c L s] assms by simp

subsection \<open>Histories only grow\<close>

lemma training_pass_calls:
  "training_pass c b s = (s', r) \<Longrightarrow> \<exists>tr. calls s' = calls s @ tr"
  unfolding training_pass_def stmt_defs
  by (auto split: sum.splits option.splits prod.splits)

lemma training_pass_printed:
  "training_pass c b s = (s', r) \<Longrightarrow> printed s' = printed s"
  unfolding training_pass_def stmt_defs
  by (auto split: sum.splits option.splits prod.splits)

lemma run_batches_calls:
  "run_batches c bs acc s = (s', r) \<Longrightarrow> \<exists>tr. calls s' = calls s @ tr"
proof (induction bs arbitrary: acc s)
  case Nil
  then show ?case by simp
next
  case (Cons b bs)
  obtain s1 r1 where p: "training_pass c b s = (s1, r1)" by (cases "training_pass c b s")
  then obtain tr1 where tr1: "calls s1 = calls s @ tr1" using training_pass_calls by blast
  show ?case
  proof (cases r1)
    case (Inl err)
    with Cons.prems p tr1 show ?thesis by auto
  next
    case (Inr v)
    with Cons.prems p have "run_batches c bs (py_add c acc v) s1 = (s', r)" by simp
    from Cons.IH [OF this] tr1 show ?thesis by auto
  qed
qed

lemma run_batches_printed:
  "run_batches c bs acc s = (s', r) \<Longrightarrow> printed s' = printed s"
proof (induction bs arbitrary: acc s)
  case Nil
  then show ?case by simp
next
  case (Cons b bs)
  obtain s1 r1 where p: "training_pass c b s = (s1, r1)" by (cases "training_pass c b s")
  then have pr: "printed s1 = printed s" by (rule training_pass_printed)
  show ?case
  proof (cases r1)
    case (Inl err)
    with Cons.prems p pr show ?thesis by auto
  next
    case (Inr v)
    with Cons.prems p have "run_batches c bs (py_add c acc v) s1 = (s', r)" by simp
    from Cons.IH [OF this] pr show ?thesis by simp
  qed
qed

lemma epoch_calls:
  "epoch c L e s = (s', r) \<Longrightarrow> \<exists>tr. calls s' = calls s @ tr"
  unfolding epoch_def
  by (auto split: prod.splits sum.splits if_splits dest: run_batches_calls)

lemma epoch_printed_ok:
  "epoch c L e s = (s', None) \<Longrightarrow>
   0 < len L \<and> (\<exists>s1 acc. run_batches c (traversal L e) (py_zero c) s = (s1, Inr acc) \<and>
      s' = s1\<lparr>printed := printed s @ [py_truediv c acc (len L)]\<rparr>)"
  unfolding epoch_def
  by (auto split: prod.splits sum.splits if_splits dest: run_batches_printed)

lemma epoch_printed_raise:
  "epoch c L e s = (s', Some err) \<Longrightarrow> printed s' = printed s"
  unfolding epoch_def
  by (auto split: prod.splits sum.splits if_splits dest: run_batches_printed)

lemma run_epochs_calls:
  "run_epochs c L es s = (s', r) \<Longrightarrow> \<exists>tr. calls s' = calls s @ tr"
proof (induction es arbitrary: s)
  case Nil
  then show ?case by simp
next
  case (Cons e es)
  obtain s1 r1 where p: "epoch c L e s = (s1, r1)" by (cases "epoch c L e s")
  then obtain tr1 where tr1: "calls s1 = calls s @ tr1" using epoch_calls by blast
  show ?case
  proof (cases r1)
    case (Some err)
    with Cons.prems p tr1 show ?thesis by auto
  next
    case None
    with Cons.prems p have "run_epochs c L es s1 = (s', r)" by simp
    from Cons.IH [OF this] tr1 show ?thesis by auto
  qed
qed

lemma run_epochs_printed:
  "run_epochs c L es s = (s', r) \<Longrightarrow> \<exists>ms. printed s' = printed s @ ms"
proof (induction es arbitrary: s)
  case Nil
  then show ?case by simp
next
  case (Cons e es)
  obtain s1 r1 where p: "epoch c L e s = (s1, r1)" by (cases "epoch c L e s")
  show ?case
  proof (cases r1)
    case (Some err)
    with Cons.prems p epoch_printed_raise [of c L e s s1 err] show ?thesis by auto
  next
    case None
    with Cons.prems p have "run_epochs c L es s1 = (s', r)" by simp
    from Cons.IH [OF this] epoch_printed_ok [of c L e s s1] p None show ?thesis by auto
  qed
qed


subsection \<open>Every batch of every epoch\<close>

lemma train_ok_batch:
  assumes "train c L E s = (sF, None)" and "int k < E" and "i < len L"
  shows "\<exists>sk s0 acc s1 v.
           train c L (int k) s = (sk, None) \<and>
           run_batches c (take i (traversal L k)) (py_zero c) sk = (s0, Inr acc) \<and>
           training_pass c (batch_at L k i) s0 = (s1, Inr v) \<and>
           run_batches c (take (Suc i) (traversal L k)) (py_zero c) sk =
             (s1, Inr (py_add c acc v)) \<and>
           (\<exists>rest. calls sF = calls s1 @ rest)"
proof -
  from train_ok_epoch [OF assms(1,2)] obtain sk sk'
    where sk: "train c L (int k) s = (sk, None)"
      and ep: "epoch c L k sk = (sk', None)"
      and rest: "run_epochs c L [Suc k..<nat E] sk' = (sF, None)"
    by blast
  from epoch_printed_ok [OF ep] obtain s2 rl
    where rb: "run_batches c (traversal L k) (py_zero c) sk = (s2, Inr rl)"
      and sk': "sk' = s2\<lparr>printed := printed sk @ [py_truediv c rl (len L)]\<rparr>"
    by blast
  let ?bs = "traversal L k"
  from rb traversal_split [OF assms(3), of k]
  have "run_batches c (take i ?bs @ batch_at L k i # drop (Suc i) ?bs) (py_zero c) sk =
          (s2, Inr rl)"
    by simp
  from run_batches_ok_split [OF this] obtain s0 acc
    where s0: "run_batches c (take i ?bs) (py_zero c) sk = (s0, Inr acc)"
      and tl: "run_batches c (batch_at L k i # drop (Suc i) ?bs) acc s0 = (s2, Inr rl)"
    by blast
  from tl obtain s1 v
    where tp: "training_pass c (batch_at L k i) s0 = (s1, Inr v)"
      and tl': "run_batches c (drop (Suc i) ?bs) (py_add c acc v) s1 = (s2, Inr rl)"
    by (auto split: prod.splits sum.splits)
  from s0 tp have up: "run_batches c (take (Suc i) ?bs) (py_zero c) sk =
      (s1, Inr (py_add c acc v))"
    by (simp add: take_Suc_traversal [OF assms(3)] run_batches_append)
  from run_batches_calls [OF tl'] obtain t1 where t1: "calls s2 = calls s1 @ t1" by blast
  from sk' have "calls sk' = calls s2" by simp
  moreover from run_epochs_calls [OF rest] obtain t2 where "calls sF = calls sk' @ t2"
    by blast
  ultimately have "calls sF = calls s1 @ (t1 @ t2)" using t1 by simp
  with sk s0 tp up show ?thesis by blast
qed

subsection \<open>The stages of a completed run\<close>

lemma training_pass_stages:
  "training_pass c b s = (s', Inr v) \<Longrightarrow>
   \<exists>tr. calls s' = calls s @ tr \<and> map stage_of tr = pass_stages"
  by (cases b) (auto simp: training_pass_ok pass_stages_def)

lemma run_batches_stages:
  "run_batches c bs acc s = (s', Inr a) \<Longrightarrow>
   \<exists>tr. calls s' = calls s @ tr \<and>
        map stage_of tr = concat (replicate (length bs) pass_stages)"
proof (induction bs arbitrary: acc s)
  case Nil
  then show ?case by simp
next
  case (Cons b bs)
  from Cons.prems obtain s1 v
    where p: "training_pass c b s = (s1, Inr v)"
      and q: "run_batches c bs (py_add c acc v) s1 = (s', Inr a)"
    by (auto split: prod.splits sum.splits)
  from training_pass_stages [OF p] obtain t1
    where t1: "calls s1 = calls s @ t1" "map stage_of t1 = pass_stages" by blast
  from Cons.IH [OF q] obtain t2
    where t2: "calls s' = calls s1 @ t2"
      "map stage_of t2 = concat (replicate (length bs) pass_stages)" by blast
  from t1 t2 have "calls s' = calls s @ (t1 @ t2)"
    "map stage_of (t1 @ t2) = concat (replicate (length (b # bs)) pass_stages)"
    by simp_all
  then show ?case by blast
qed

lemma epoch_stages:
  assumes "epoch c L e s = (s', None)"
  shows "\<exists>tr. calls s' = calls s @ tr \<and>
           map stage_of tr = concat (replicate (len L) pass_stages)"
proof -
  from epoch_printed_ok [OF assms] obtain s1 acc
    where rb: "run_batches c (traversal L e) (py_zero c) s = (s1, Inr acc)"
      and s': "s' = s1\<lparr>printed := printed s @ [py_truediv c acc (len L)]\<rparr>"
    by blast
  from run_batches_stages [OF rb] s' show ?thesis
    by (simp add: length_traversal)
qed

lemma run_epochs_stages:
  "run_epochs c L es s = (s', None) \<Longrightarrow>
   \<exists>tr. calls s' = calls s @ tr \<and>
        map stage_of tr = concat (replicate (length es * len L) pass_stages)"
proof (induction es arbitrary: s)
  case Nil
  then show ?case by simp
next
  case (Cons e es)
  from Cons.prems obtain s1 where p: "epoch c L e s = (s1, None)"
    and q: "run_epochs c L es s1 = (s', None)"
    by (auto split: prod.splits option.splits)
  from epoch_stages [OF p] obtain t1
    where t1: "calls s1 = calls s @ t1"
      "map stage_of t1 = concat (replicate (len L) pass_stages)" by blast
  from Cons.IH [OF q] obtain t2
    where t2: "calls s' = calls s1 @ t2"
      "map stage_of t2 = concat (replicate (length es * len L) pass_stages)" by blast
  from t1 t2 have "calls s' = calls s @ (t1 @ t2)"
    "map stage_of (t1 @ t2) = concat (replicate (length (e # es) * len L) pass_stages)"
    by (simp_all add: replicate_add)
  then show ?case by blast
qed

lemma train_stages:
  assumes "train c L E s = (sF, None)"
  shows "\<exists>tr. calls sF = calls s @ tr \<and>
           map stage_of tr = concat (replicate (nat E * len L) pass_stages)"
  using run_epochs_stages [OF assms [unfolded train_def]] by simp

subsection \<open>The stages of any run\<close>

lemma training_pass_stages_raise:
  "training_pass c b s = (s', Inl err) \<Longrightarrow>
   \<exists>tr rest. calls s' = calls s @ tr \<and> pass_stages = map stage_of tr @ rest"
  unfolding training_pass_def stmt_defs pass_stages_def
  by (auto split: sum.splits option.splits prod.splits)

lemma run_batches_stages_any:
  "run_batches c bs acc s = (s', r) \<Longrightarrow>
   \<exists>tr rest. calls s' = calls s @ tr \<and>
     concat (replicate (length bs) pass_stages) = map stage_of tr @ rest"
proof (induction bs arbitrary: acc s)
  case Nil
  then show ?case by simp
next
  case (Cons b bs)
  obtain s1 r1 where p: "training_pass c b s = (s1, r1)" by (cases "training_pass c b s")
  show ?case
  proof (cases r1)
    case (Inl err)
    with Cons.prems p have s': "s' = s1" by simp
    from training_pass_stages_raise [OF p [unfolded Inl]] obtain tr rest
      where "calls s1 = calls s @ tr" "pass_stages = map stage_of tr @ rest" by blast
    then have "calls s' = calls s @ tr"
      "concat (replicate (length (b # bs)) pass_stages) =
         map stage_of tr @ (rest @ concat (replicate (length bs) pass_stages))"
      using s' by simp_all
    then show ?thesis by blast
  next
    case (Inr v)
    with Cons.prems p have q: "run_batches c bs (py_add c acc v) s1 = (s', r)" by simp
    from training_pass_stages [OF p [unfolded Inr]] obtain t1
      where t1: "calls s1 = calls s @ t1" "map stage_of t1 = pass_stages" by blast
    from Cons.IH [OF q] obtain t2 rest
      where t2: "calls s' = calls s1 @ t2"
        "concat (replicate (length bs) pass_stages) = map stage_of t2 @ rest" by blast
    from t1 t2 have "calls s' = calls s @ (t1 @ t2)"
      "concat (replicate (length (b # bs)) pass_stages) = map stage_of (t1 @ t2) @ rest"
      by simp_all
    then show ?thesis by blast
  qed
qed

lemma epoch_stages_any:
  assumes "epoch c L e s = (s', r)"
  shows "\<exists>tr rest. calls s' = calls s @ tr \<and>
           concat (replicate (len L) pass_stages) = map stage_of tr @ rest"
proof -
  obtain s1 r1 where rb: "run_batches c (traversal L e) (py_zero c) s = (s1, r1)"
    by (cases "run_batches c (traversal L e) (py_zero c) s")
  with assms have "calls s' = calls s1"
    by (auto simp: epoch_def split: sum.splits if_splits)
  with run_batches_stages_any [OF rb] show ?thesis
    by (simp add: length_traversal)
qed

lemma run_epochs_stages_any:
  "run_epochs c L es s = (s', r) \<Longrightarrow>
   \<exists>tr rest. calls s' = calls s @ tr \<and>
     concat (replicate (length es * len L) pass_stages) = map stage_of tr @ rest"
proof (induction es arbitrary: s)
  case Nil
  then show ?case by simp
next
  case (Cons e es)
  obtain s1 r1 where p: "epoch c L e s = (s1, r1)" by (cases "epoch c L e s")
  show ?case
  proof (cases r1)
    case (Some err)
    with Cons.prems p have s': "s' = s1" by simp
    from epoch_stages_any [OF p] obtain tr rest
      where "calls s1 = calls s @ tr"
        "concat (replicate (len L) pass_stages) = map stage_of tr @ rest" by blast
    then have "calls s' = calls s @ tr"
      "concat (replicate (length (e # es) * len L) pass_stages) =
         map stage_of tr @ (rest @ concat (replicate (length es * len L) pass_stages))"
      using s' by (simp_all add: replicate_add)
    then show ?thesis by blast
  next
    case None
    with Cons.prems p have q: "run_epochs c L es s1 = (s', r)" by simp
    from epoch_stages [OF p [unfolded None]] obtain t1
      where t1: "calls s1 = calls s @ t1"
        "map stage_of t1 = concat (replicate (len L) pass_stages)" by blast
    from Cons.IH [OF q] obtain t2 rest
      where t2: "calls s' = calls s1 @ t2"
        "concat (replicate (length es * len L) pass_stages) = map stage_of t2 @ rest"
      by blast
    from t1 t2 have "calls s' = calls s @ (t1 @ t2)"
      "concat (replicate (length (e # es) * len L) pass_stages) =
         map stage_of (t1 @ t2) @ rest"
      by (simp_all add: replicate_add)
    then show ?thesis by blast
  qed
qed

lemma train_extends_batches:
  assumes "train c L (int k) s = (sk, None)" and "int k < E"
    and "run_batches c (take j (traversal L k)) (py_zero c) sk = (s1, Inr a)"
  shows "\<exists>rest. calls (fst (train c L E s)) = calls s1 @ rest"
proof -
  let ?bs = "traversal L k"
  obtain s2 r2 where rb: "run_batches c (drop j ?bs) a s1 = (s2, r2)"
    by (cases "run_batches c (drop j ?bs) a s1")
  from run_batches_calls [OF rb] obtain t1 where t1: "calls s2 = calls s1 @ t1" by blast
  from assms(3) rb have "run_batches c (take j ?bs @ drop j ?bs) (py_zero c) sk = (s2, r2)"
    unfolding run_batches_append by simp
  then have all: "run_batches c ?bs (py_zero c) sk = (s2, r2)" by simp
  obtain s3 r3 where ep: "epoch c L k sk = (s3, r3)" by (cases "epoch c L k sk")
  with all have s3: "calls s3 = calls s2"
    by (auto simp: epoch_def split: sum.splits if_splits)
  from assms(2) have "[k..<nat E] = k # [Suc k..<nat E]"
    by (simp add: upt_conv_Cons)
  with train_continues [OF assms(1), of E] assms(2)
  have tr: "train c L E s = run_epochs c L (k # [Suc k..<nat E]) sk" by simp
  show ?thesis
  proof (cases r3)
    case (Some err)
    with tr ep have "fst (train c L E s) = s3" by simp
    with s3 t1 show ?thesis by simp
  next
    case None
    with tr ep have "train c L E s = run_epochs c L [Suc k..<nat E] s3" by simp
    then have "run_epochs c L [Suc k..<nat E] s3 = (fst (train c L E s), snd (train c L E s))"
      by simp
    from run_epochs_calls [OF this] s3 t1 show ?thesis by auto
  qed
qed

text \<open>
  C1. Take any batch \<open>i\<close> of any epoch \<open>k\<close> of a run that completes or, if it does
  not, at least gets through that batch. Its training pass zeroes the gradients,
  computes the forward pass, evaluates the loss, runs the backward pass and applies the
  optimizer step, in this order and on each other's results: the forward pass reads the
  parameters the previous batch left, the loss is evaluated on that output and the
  batch's labels, the backward pass is invoked on that very loss and accumulates into
  the gradients that \<open>zero_grad\<close> has just cleared, and the step consumes the gradients
  that backward pass produced. The seven calls of the pass enter the history as one
  block, which stays a part of the final history. The stages of the whole history are
  an initial part of the repetition of the stages of a pass, one pass for each batch of
  each epoch, and all of it when the run completes.
\<close>

theorem training_pass_in_order:
  assumes "int k < E" and "i < len L"
    and "snd (train c L E s) = None \<or>
         (\<exists>sk s1 a. train c L (int k) s = (sk, None) \<and>
            run_batches c (take (Suc i) (traversal L k)) (py_zero c) sk = (s1, Inr a))"
  shows "\<exists>sk s0 acc s1 x g0 out l g1 p1 v tr rest.
           train c L (int k) s = (sk, None) \<and>
           run_batches c (take i (traversal L k)) (py_zero c) sk = (s0, Inr acc) \<and>
           view c (fst (batch_at L k i)) = Inr x \<and>
           zero_grad c (grads s0) = (g0, None) \<and>
           model c (params s0) x = Inr out \<and>
           criterion c out (snd (batch_at L k i)) = Inr l \<and>
           backward c l g0 = (g1, None) \<and>
           step c g1 (params s0) = (p1, None) \<and>
           item c l = Inr v \<and>
           run_batches c (take (Suc i) (traversal L k)) (py_zero c) sk =
             (s1, Inr (py_add c acc v)) \<and>
           params s1 = p1 \<and> grads s1 = g1 \<and>
           calls s1 = calls s0 @
             [View (fst (batch_at L k i)), ZeroGrad (grads s0), Forward (params s0) x,
              Criterion out (snd (batch_at L k i)), Backward l g0, Step g1, Item l] \<and>
           (\<exists>later. calls (fst (train c L E s)) = calls s1 @ later) \<and>
           calls (fst (train c L E s)) = calls s @ tr \<and>
           concat (replicate (nat E * len L) pass_stages) = map stage_of tr @ rest \<and>
           (rest = [] \<or> (\<exists>err. snd (train c L E s) = Some err))"
proof -
  let ?bs = "traversal L k"
  let ?b = "batch_at L k i"
  have "\<exists>sk s1 a. train c L (int k) s = (sk, None) \<and>
          run_batches c (take (Suc i) ?bs) (py_zero c) sk = (s1, Inr a)"
  proof (cases "snd (train c L E s) = None")
    case True
    then have "train c L E s = (fst (train c L E s), None)" by (simp add: prod_eq_iff)
    from train_ok_batch [OF this assms(1,2)] show ?thesis by blast
  next
    case False
    with assms(3) show ?thesis by simp
  qed
  then obtain sk s1 a
    where sk: "train c L (int k) s = (sk, None)"
      and up: "run_batches c (take (Suc i) ?bs) (py_zero c) sk = (s1, Inr a)"
    by blast
  from up have "run_batches c (take i ?bs @ [?b]) (py_zero c) sk = (s1, Inr a)"
    by (simp add: take_Suc_traversal [OF assms(2)])
  from run_batches_ok_split [OF this] obtain s0 acc
    where s0: "run_batches c (take i ?bs) (py_zero c) sk = (s0, Inr acc)"
      and one: "run_batches c [?b] acc s0 = (s1, Inr a)"
    by blast
  from one obtain v
    where tp: "training_pass c ?b s0 = (s1, Inr v)" and a: "a = py_add c acc v"
    by (auto split: prod.splits sum.splits)
  obtain im lb where b: "?b = (im, lb)" by (cases ?b)
  from tp [unfolded b training_pass_ok] obtain x g0 out l g1 p1
    where chain: "view c im = Inr x" "zero_grad c (grads s0) = (g0, None)"
      "model c (params s0) x = Inr out" "criterion c out lb = Inr l"
      "backward c l g0 = (g1, None)" "step c g1 (params s0) = (p1, None)"
      "item c l = Inr v"
      and s1: "s1 = s0\<lparr>params := p1, grads := g1,
              calls := calls s0 @ [View im, ZeroGrad (grads s0), Forward (params s0) x,
                Criterion out lb, Backward l g0, Step g1, Item l]\<rparr>"
    by blast
  from s1 have s1': "params s1 = p1" "grads s1 = g1"
    "calls s1 = calls s0 @ [View im, ZeroGrad (grads s0), Forward (params s0) x,
                Criterion out lb, Backward l g0, Step g1, Item l]"
    by simp_all
  from train_extends_batches [OF sk assms(1) up]
  have later: "\<exists>later. calls (fst (train c L E s)) = calls s1 @ later" .
  have run: "run_epochs c L [0..<nat E] s = (fst (train c L E s), snd (train c L E s))"
    by (simp add: train_def)
  obtain tr rest
    where all: "calls (fst (train c L E s)) = calls s @ tr"
      "concat (replicate (nat E * len L) pass_stages) = map stage_of tr @ rest"
      "rest = [] \<or> (\<exists>err. snd (train c L E s) = Some err)"
  proof (cases "snd (train c L E s)")
    case None
    with run have "run_epochs c L [0..<nat E] s = (fst (train c L E s), None)" by simp
    from run_epochs_stages [OF this] obtain tr
      where "calls (fst (train c L E s)) = calls s @ tr"
        "concat (replicate (nat E * len L) pass_stages) = map stage_of tr @ []"
      by auto
    then show ?thesis using that by blast
  next
    case (Some err)
    from run_epochs_stages_any [OF run] obtain tr rest
      where "calls (fst (train c L E s)) = calls s @ tr"
        "concat (replicate (nat E * len L) pass_stages) = map stage_of tr @ rest"
      by auto
    with Some show ?thesis using that by blast
  qed
  show ?thesis
    using sk s0 chain up [unfolded a] s1' later all unfolding b fst_conv snd_conv
    by blast
qed

theorem training_pass_in_order_witness:
  "snd (train toy_torch toy_loader 2 toy_state) = None \<and>
   (\<exists>sk s0 acc s1 x g0 out l g1 p1 v tr rest.
      train toy_torch toy_loader 1 toy_state = (sk, None) \<and>
      run_batches toy_torch (take 1 (traversal toy_loader 1)) (py_zero toy_torch) sk =
        (s0, Inr acc) \<and>
      view toy_torch (fst (batch_at toy_loader 1 1)) = Inr x \<and>
      zero_grad toy_torch (grads s0) = (g0, None) \<and>
      model toy_torch (params s0) x = Inr out \<and>
      criterion toy_torch out (snd (batch_at toy_loader 1 1)) = Inr l \<and>
      backward toy_torch l g0 = (g1, None) \<and>
      step toy_torch g1 (params s0) = (p1, None) \<and>
      item toy_torch l = Inr v \<and>
      run_batches toy_torch (take (Suc 1) (traversal toy_loader 1)) (py_zero toy_torch) sk =
        (s1, Inr (py_add toy_torch acc v)) \<and>
      params s1 = p1 \<and> grads s1 = g1 \<and>
      calls s1 = calls s0 @
        [View (fst (batch_at toy_loader 1 1)), ZeroGrad (grads s0), Forward (params s0) x,
         Criterion out (snd (batch_at toy_loader 1 1)), Backward l g0, Step g1, Item l] \<and>
      (\<exists>later. calls (fst (train toy_torch toy_loader 2 toy_state)) = calls s1 @ later) \<and>
      calls (fst (train toy_torch toy_loader 2 toy_state)) = calls toy_state @ tr \<and>
      concat (replicate (nat 2 * len toy_loader) pass_stages) = map stage_of tr @ rest \<and>
      (rest = [] \<or> (\<exists>err. snd (train toy_torch toy_loader 2 toy_state) = Some err)))"
proof -
  have ok: "snd (train toy_torch toy_loader 2 toy_state) = None"
    by code_simp
  have k: "int 1 < 2" by simp
  have i: "1 < len toy_loader" by (simp add: toy_loader_def)
  from ok have "snd (train toy_torch toy_loader 2 toy_state) = None \<or>
      (\<exists>sk s1 a. train toy_torch toy_loader (int 1) toy_state = (sk, None) \<and>
         run_batches toy_torch (take (Suc 1) (traversal toy_loader 1)) (py_zero toy_torch) sk =
           (s1, Inr a))"
    by (rule disjI1)
  from training_pass_in_order [OF k i this] ok show ?thesis
    by (simp only: of_nat_1)
qed

subsection \<open>No epochs\<close>

text \<open>
  C4. With \<open>epochs \<le> 0\<close> the cell ends without an exception and leaves the state as
  it was: nothing is printed, no PyTorch call is made, the parameters are untouched.
\<close>

theorem train_no_epochs:
  assumes "epochs \<le> 0"
  shows "train c L epochs s = (s, None)"
  using assms by (simp add: train_def)

theorem train_no_epochs_witness:
  "(- 3 :: int) \<le> 0 \<and> train toy_torch toy_loader (- 3) toy_state = (toy_state, None)"
  using train_no_epochs [of "- 3" toy_torch toy_loader toy_state] by simp

subsection \<open>The running loss\<close>

lemma run_batches_losses:
  "run_batches c bs acc s = (s', Inr a) \<Longrightarrow>
   \<exists>vs. length vs = length bs \<and> a = foldl (py_add c) acc vs \<and>
     (\<forall>i<length bs. \<exists>s0 s1.
        run_batches c (take i bs) acc s = (s0, Inr (foldl (py_add c) acc (take i vs))) \<and>
        training_pass c (bs ! i) s0 = (s1, Inr (vs ! i)))"
proof (induction bs arbitrary: acc s)
  case Nil
  then show ?case by simp
next
  case (Cons b bs)
  from Cons.prems obtain s1 v
    where p: "training_pass c b s = (s1, Inr v)"
      and q: "run_batches c bs (py_add c acc v) s1 = (s', Inr a)"
    by (auto split: prod.splits sum.splits)
  from Cons.IH [OF q] obtain vs
    where len: "length vs = length bs"
      and a: "a = foldl (py_add c) (py_add c acc v) vs"
      and each: "\<And>i. i < length bs \<Longrightarrow> \<exists>s0 s1'.
        run_batches c (take i bs) (py_add c acc v) s1 =
          (s0, Inr (foldl (py_add c) (py_add c acc v) (take i vs))) \<and>
        training_pass c (bs ! i) s0 = (s1', Inr (vs ! i))"
    by blast
  have "\<exists>s0 s1'.
        run_batches c (take i (b # bs)) acc s =
          (s0, Inr (foldl (py_add c) acc (take i (v # vs)))) \<and>
        training_pass c ((b # bs) ! i) s0 = (s1', Inr ((v # vs) ! i))"
    if "i < length (b # bs)" for i
  proof (cases i)
    case 0
    with p show ?thesis by simp
  next
    case (Suc j)
    with that have "j < length bs" by simp
    from each [OF this] Suc p show ?thesis by simp
  qed
  with len a show ?case
    by (intro exI [of _ "v # vs"]) simp
qed

text \<open>
  C2. For every epoch \<open>k\<close> of a run that gets to the end of that epoch, there are
  the losses \<open>vs\<close> of its batches, one per batch of the traversal: \<open>vs ! i\<close> is
  \<open>loss.item()\<close> of the loss that \<open>criterion\<close> computed for batch \<open>i\<close> from the output of
  the forward pass on that batch, with the parameters the batches before it left.
  \<open>running_loss\<close> is \<open>py_zero\<close> before the first batch, the sum of the first \<open>i\<close>
  losses before batch \<open>i\<close> and the sum of the first \<open>i + 1\<close> after it (each is added
  once, in order), and the value the epoch prints is the sum of all of them divided by
  \<open>len(trainloader)\<close>, the number of batches traversed. That value stays the \<open>k\<close>-th
  printed value of any longer run. An epoch that completes has processed at least one
  batch.
\<close>

theorem epoch_reports_mean:
  assumes "train c L (int (Suc k)) s = (s', None)" and "int k < E"
  shows "0 < len L \<and>
    (\<exists>sk vs rest.
       train c L (int k) s = (sk, None) \<and>
       length vs = len L \<and>
       (\<forall>i<len L. \<exists>s0 x out l s1.
          run_batches c (take i (traversal L k)) (py_zero c) sk =
            (s0, Inr (foldl (py_add c) (py_zero c) (take i vs))) \<and>
          view c (fst (batch_at L k i)) = Inr x \<and>
          model c (params s0) x = Inr out \<and>
          criterion c out (snd (batch_at L k i)) = Inr l \<and>
          item c l = Inr (vs ! i) \<and>
          run_batches c (take (Suc i) (traversal L k)) (py_zero c) sk =
            (s1, Inr (py_add c (foldl (py_add c) (py_zero c) (take i vs)) (vs ! i)))) \<and>
       printed s' = printed sk @ [py_truediv c (foldl (py_add c) (py_zero c) vs) (len L)] \<and>
       printed (fst (train c L E s)) = printed s' @ rest)"
proof -
  from assms(1) obtain sk
    where sk: "train c L (int k) s = (sk, None)" and ep: "epoch c L k sk = (s', None)"
    unfolding train_Suc by (auto split: prod.splits option.splits)
  from epoch_printed_ok [OF ep] obtain s1 acc
    where pos: "0 < len L"
      and rb: "run_batches c (traversal L k) (py_zero c) sk = (s1, Inr acc)"
      and s': "s' = s1\<lparr>printed := printed sk @ [py_truediv c acc (len L)]\<rparr>"
    by blast
  from run_batches_losses [OF rb] obtain vs
    where len: "length vs = len L"
      and acc: "acc = foldl (py_add c) (py_zero c) vs"
      and each: "\<And>i. i < len L \<Longrightarrow> \<exists>s0 s1.
          run_batches c (take i (traversal L k)) (py_zero c) sk =
            (s0, Inr (foldl (py_add c) (py_zero c) (take i vs))) \<and>
          training_pass c (traversal L k ! i) s0 = (s1, Inr (vs ! i))"
    unfolding length_traversal by blast
  have each': "\<exists>s0 x out l s1.
          run_batches c (take i (traversal L k)) (py_zero c) sk =
            (s0, Inr (foldl (py_add c) (py_zero c) (take i vs))) \<and>
          view c (fst (batch_at L k i)) = Inr x \<and>
          model c (params s0) x = Inr out \<and>
          criterion c out (snd (batch_at L k i)) = Inr l \<and>
          item c l = Inr (vs ! i) \<and>
          run_batches c (take (Suc i) (traversal L k)) (py_zero c) sk =
            (s1, Inr (py_add c (foldl (py_add c) (py_zero c) (take i vs)) (vs ! i)))"
    if i: "i < len L" for i
  proof -
    from each [OF i] obtain s0 s1
      where s0: "run_batches c (take i (traversal L k)) (py_zero c) sk =
            (s0, Inr (foldl (py_add c) (py_zero c) (take i vs)))"
        and tp: "training_pass c (traversal L k ! i) s0 = (s1, Inr (vs ! i))"
      by blast
    obtain im lb where b: "batch_at L k i = (im, lb)" by (cases "batch_at L k i")
    with tp i have tp': "training_pass c (im, lb) s0 = (s1, Inr (vs ! i))"
      by (simp add: nth_traversal)
    from tp' have "\<exists>x out l. view c im = Inr x \<and> model c (params s0) x = Inr out \<and>
        criterion c out lb = Inr l \<and> item c l = Inr (vs ! i)"
      unfolding training_pass_def stmt_defs
      by (auto split: sum.splits option.splits prod.splits)
    then obtain x out l
      where chain: "view c im = Inr x" "model c (params s0) x = Inr out"
        "criterion c out lb = Inr l" "item c l = Inr (vs ! i)"
      by blast
    from s0 tp' b have "run_batches c (take (Suc i) (traversal L k)) (py_zero c) sk =
        (s1, Inr (py_add c (foldl (py_add c) (py_zero c) (take i vs)) (vs ! i)))"
      by (simp add: take_Suc_traversal [OF i] run_batches_append)
    with s0 chain show ?thesis unfolding b fst_conv snd_conv by blast
  qed
  from s' acc have pr: "printed s' =
      printed sk @ [py_truediv c (foldl (py_add c) (py_zero c) vs) (len L)]"
    by simp
  from assms(2) have "int (Suc k) \<le> E" by simp
  from train_continues [OF assms(1) this]
  have "train c L E s = run_epochs c L [Suc k..<nat E] s'" .
  then have "run_epochs c L [Suc k..<nat E] s' = (fst (train c L E s), snd (train c L E s))"
    by simp
  from run_epochs_printed [OF this] obtain rest
    where "printed (fst (train c L E s)) = printed s' @ rest" by blast
  with pos sk len each' pr show ?thesis by blast
qed


theorem epoch_reports_mean_witness:
  "snd (train toy_torch toy_loader 2 toy_state) = None \<and> 0 < len toy_loader \<and>
   (\<exists>sk rest.
      train toy_torch toy_loader 1 toy_state = (sk, None) \<and>
      printed (fst (train toy_torch toy_loader 2 toy_state)) =
        printed sk @
          [py_truediv toy_torch (foldl (py_add toy_torch) (py_zero toy_torch) [4, 4])
             (len toy_loader)] \<and>
      printed (fst (train toy_torch toy_loader 3 toy_state)) =
        printed (fst (train toy_torch toy_loader 2 toy_state)) @ rest) \<and>
   printed (fst (train toy_torch toy_loader 2 toy_state)) = [1, 4]"
proof -
  define s2 where "s2 = fst (train toy_torch toy_loader 2 toy_state)"
  define t1 where "t1 = fst (run_batches toy_torch (take 1 (traversal toy_loader 1))
      (py_zero toy_torch) (fst (train toy_torch toy_loader 1 toy_state)))"
  have ok: "snd (train toy_torch toy_loader 2 toy_state) = None"
    by code_simp
  then have run: "train toy_torch toy_loader (int (Suc 1)) toy_state = (s2, None)"
    unfolding s2_def by (simp add: prod_eq_iff)
  have E: "int 1 < 3" by simp
  have L: "len toy_loader = 2" by (simp add: toy_loader_def)
  from epoch_reports_mean [OF run E] obtain sk vs rest
    where sk: "train toy_torch toy_loader (int 1) toy_state = (sk, None)"
      and len: "length vs = len toy_loader"
      and each: "\<forall>i<len toy_loader. \<exists>s0 x out l s1.
          run_batches toy_torch (take i (traversal toy_loader 1)) (py_zero toy_torch) sk =
            (s0, Inr (foldl (py_add toy_torch) (py_zero toy_torch) (take i vs))) \<and>
          view toy_torch (fst (batch_at toy_loader 1 i)) = Inr x \<and>
          model toy_torch (params s0) x = Inr out \<and>
          criterion toy_torch out (snd (batch_at toy_loader 1 i)) = Inr l \<and>
          item toy_torch l = Inr (vs ! i) \<and>
          run_batches toy_torch (take (Suc i) (traversal toy_loader 1)) (py_zero toy_torch) sk =
            (s1, Inr (py_add toy_torch
               (foldl (py_add toy_torch) (py_zero toy_torch) (take i vs)) (vs ! i)))"
      and pr: "printed s2 = printed sk @
          [py_truediv toy_torch (foldl (py_add toy_torch) (py_zero toy_torch) vs)
             (len toy_loader)]"
      and later: "printed (fst (train toy_torch toy_loader 3 toy_state)) = printed s2 @ rest"
    by blast
  from sk have skd: "sk = fst (train toy_torch toy_loader 1 toy_state)" by simp
  have psk: "params sk = (1, - 2)" unfolding skd by code_simp
  have pt1: "params t1 = (3, - 3)" unfolding t1_def by code_simp
  have v0: "vs ! 0 = 4"
  proof -
    from each L have "\<exists>s0 x out l.
        run_batches toy_torch (take 0 (traversal toy_loader 1)) (py_zero toy_torch) sk =
          (s0, Inr (foldl (py_add toy_torch) (py_zero toy_torch) (take 0 vs))) \<and>
        view toy_torch (fst (batch_at toy_loader 1 0)) = Inr x \<and>
        model toy_torch (params s0) x = Inr out \<and>
        criterion toy_torch out (snd (batch_at toy_loader 1 0)) = Inr l \<and>
        item toy_torch l = Inr (vs ! 0)"
      by (metis zero_less_numeral)
    then obtain s0 x out l
      where a: "run_batches toy_torch (take 0 (traversal toy_loader 1)) (py_zero toy_torch) sk =
          (s0, Inr (foldl (py_add toy_torch) (py_zero toy_torch) (take 0 vs)))"
        and b: "view toy_torch (fst (batch_at toy_loader 1 0)) = Inr x"
          "model toy_torch (params s0) x = Inr out"
          "criterion toy_torch out (snd (batch_at toy_loader 1 0)) = Inr l"
          "item toy_torch l = Inr (vs ! 0)"
      by blast
    from a have "s0 = sk" by simp
    with b psk show ?thesis
      by (auto simp: toy_torch_def toy_loader_def)
  qed
  have v1: "vs ! 1 = 4"
  proof -
    from each L have "\<exists>s0 x out l.
        run_batches toy_torch (take 1 (traversal toy_loader 1)) (py_zero toy_torch) sk =
          (s0, Inr (foldl (py_add toy_torch) (py_zero toy_torch) (take 1 vs))) \<and>
        view toy_torch (fst (batch_at toy_loader 1 1)) = Inr x \<and>
        model toy_torch (params s0) x = Inr out \<and>
        criterion toy_torch out (snd (batch_at toy_loader 1 1)) = Inr l \<and>
        item toy_torch l = Inr (vs ! 1)"
      by (metis one_less_numeral_iff semiring_norm(76))
    then obtain s0 x out l
      where a: "run_batches toy_torch (take 1 (traversal toy_loader 1)) (py_zero toy_torch) sk =
          (s0, Inr (foldl (py_add toy_torch) (py_zero toy_torch) (take 1 vs)))"
        and b: "view toy_torch (fst (batch_at toy_loader 1 1)) = Inr x"
          "model toy_torch (params s0) x = Inr out"
          "criterion toy_torch out (snd (batch_at toy_loader 1 1)) = Inr l"
          "item toy_torch l = Inr (vs ! 1)"
      by blast
    have "s0 = t1"
      unfolding t1_def skd [symmetric] by (simp only: a fst_conv)
    with b pt1 show ?thesis
      by (auto simp: toy_torch_def toy_loader_def)
  qed
  from len L obtain a b where "vs = [a, b]"
    by (auto simp: length_Suc_conv numeral_2_eq_2)
  with v0 v1 have vs: "vs = [4, 4]" by simp
  have p2: "printed s2 = [1, 4]" unfolding s2_def by code_simp
  from ok L sk pr later p2 show ?thesis
    unfolding vs s2_def by auto
qed

subsection \<open>Runs in which nothing raises\<close>








subsection \<open>The division\<close>

lemma training_pass_raised:
  "training_pass c b s = (s', Inl err) \<Longrightarrow> \<exists>st e. err = Raised st e"
  unfolding training_pass_def stmt_defs
  by (auto split: sum.splits option.splits prod.splits)

lemma run_batches_raised:
  "run_batches c bs acc s = (s', Inl err) \<Longrightarrow> \<exists>st e. err = Raised st e"
proof (induction bs arbitrary: acc s)
  case Nil
  then show ?case by simp
next
  case (Cons b bs)
  then show ?case
    by (auto split: prod.splits sum.splits dest: training_pass_raised)
qed

lemma epoch_no_batches:
  "len L = 0 \<Longrightarrow> epoch c L e s = (s, Some ZeroDivisionError)"
  by (simp add: epoch_def traversal_def)

lemma epoch_some_batches:
  "0 < len L \<Longrightarrow> snd (epoch c L e s) \<noteq> Some ZeroDivisionError"
  by (auto simp: epoch_def split: prod.splits sum.splits dest: run_batches_raised)

lemma run_epochs_some_batches:
  "0 < len L \<Longrightarrow> snd (run_epochs c L es s) \<noteq> Some ZeroDivisionError"
proof (induction es arbitrary: s)
  case Nil
  then show ?case by simp
next
  case (Cons e es)
  obtain s1 r1 where p: "epoch c L e s = (s1, r1)" by (cases "epoch c L e s")
  with epoch_some_batches [OF Cons.prems, of c e s] have "r1 \<noteq> Some ZeroDivisionError"
    by simp
  with p Cons.IH [OF Cons.prems, of s1] show ?case
    by (cases r1) simp_all
qed

lemma train_no_batches:
  assumes "len L = 0" and "0 < E"
  shows "train c L E s = (s, Some ZeroDivisionError)"
proof -
  from assms(2) have "[0..<nat E] = 0 # [Suc 0..<nat E]"
    by (simp add: upt_conv_Cons)
  with epoch_no_batches [OF assms(1), of c 0 s] show ?thesis
    by (simp add: train_def)
qed

text \<open>
  C5. When the loader yields at least one batch per traversal, the division of
  \<open>running_loss\<close> by \<open>len(trainloader)\<close> is defined: no epoch and no run ends in
  \<open>ZeroDivisionError\<close>, and an epoch whose batches all complete prints the quotient.
  When the loader yields no batch, the epoch makes no call, prints nothing and ends in
  \<open>ZeroDivisionError\<close>, and so does every run of at least one epoch: the cell has no
  handler for it.
\<close>

theorem mean_defined_iff_some_batch:
  "(0 < len L \<longrightarrow>
      snd (epoch c L e s) \<noteq> Some ZeroDivisionError \<and>
      snd (train c L E s) \<noteq> Some ZeroDivisionError \<and>
      (\<forall>s' acc. run_batches c (traversal L e) (py_zero c) s = (s', Inr acc) \<longrightarrow>
         epoch c L e s =
           (s'\<lparr>printed := printed s' @ [py_truediv c acc (len L)]\<rparr>, None))) \<and>
   (len L = 0 \<longrightarrow>
      epoch c L e s = (s, Some ZeroDivisionError) \<and>
      (0 < E \<longrightarrow> train c L E s = (s, Some ZeroDivisionError)))"
proof (intro conjI impI allI)
  assume "0 < len L"
  then show "snd (epoch c L e s) \<noteq> Some ZeroDivisionError"
    by (rule epoch_some_batches)
next
  assume "0 < len L"
  then show "snd (train c L E s) \<noteq> Some ZeroDivisionError"
    unfolding train_def by (rule run_epochs_some_batches)
next
  fix s' acc
  assume "0 < len L" and "run_batches c (traversal L e) (py_zero c) s = (s', Inr acc)"
  then show "epoch c L e s = (s'\<lparr>printed := printed s' @ [py_truediv c acc (len L)]\<rparr>, None)"
    by (simp add: epoch_def)
next
  assume "len L = 0"
  then show "epoch c L e s = (s, Some ZeroDivisionError)"
    by (rule epoch_no_batches)
next
  assume "len L = 0" and "0 < E"
  then show "train c L E s = (s, Some ZeroDivisionError)"
    by (rule train_no_batches)
qed

theorem mean_defined_iff_some_batch_witness:
  "0 < len toy_loader \<and>
   snd (epoch toy_torch toy_loader 0 toy_state) \<noteq> Some ZeroDivisionError \<and>
   snd (train toy_torch toy_loader 2 toy_state) \<noteq> Some ZeroDivisionError \<and>
   len empty_loader = 0 \<and>
   epoch toy_torch empty_loader 0 toy_state = (toy_state, Some ZeroDivisionError) \<and>
   train toy_torch empty_loader 2 toy_state = (toy_state, Some ZeroDivisionError)"
proof -
  have L: "0 < len toy_loader" by (simp add: toy_loader_def)
  have L0: "len empty_loader = 0" by (simp add: empty_loader_def)
  have E: "(0::int) < 2" by simp
  from mean_defined_iff_some_batch [of toy_loader toy_torch 0 toy_state 2]
    mean_defined_iff_some_batch [of empty_loader toy_torch 0 toy_state 2] L L0 E
  show ?thesis by blast
qed

subsection \<open>Runs that end in an exception\<close>





lemma train_raises_in_pass:
  assumes "train c L (int k) s = (sk, None)" and "int k < E" and "i < len L"
    and "run_batches c (take i (traversal L k)) (py_zero c) sk = (s0, Inr acc)"
    and "training_pass c (batch_at L k i) s0 = (sF, Inl err)"
  shows "train c L E s = (sF, Some err)"
proof -
  from assms(4,5) have "run_batches c (traversal L k) (py_zero c) sk = (sF, Inl err)"
    by (subst traversal_split [OF assms(3)]) (simp add: run_batches_append)
  then have ep: "epoch c L k sk = (sF, Some err)"
    by (simp add: epoch_def)
  from assms(2) have "[k..<nat E] = k # [Suc k..<nat E]"
    by (simp add: upt_conv_Cons)
  with train_continues [OF assms(1), of E] assms(2) ep show ?thesis
    by simp
qed


text \<open>
  C6. Let the run reach batch \<open>i\<close> of epoch \<open>k\<close>, and let the forward pass, the loss
  evaluation or the backward pass of that batch raise \<open>e\<close>. The cell does not recover:
  the run ends there, its result is \<open>e\<close> with the statement that raised it
  (\<open>SForward\<close>, \<open>SCriterion\<close> or \<open>SBackward\<close>), and its final state is the state at that
  call. The failing call is the last call of the history; the later calls of the pass,
  the optimizer step among them, are not made, so the parameters are those the batch
  started from, and neither this epoch nor a later one prints anything.
\<close>

theorem failure_surfaces_with_stage:
  assumes "train c L (int k) s = (sk, None)" and "int k < E" and "i < len L"
    and "run_batches c (take i (traversal L k)) (py_zero c) sk = (s0, Inr acc)"
    and "batch_at L k i = (im, lb)"
    and "view c im = Inr x" and "zero_grad c (grads s0) = (g0, None)"
  shows "printed s0 = printed sk \<and>
    (\<forall>e. model c (params s0) x = Inl e \<longrightarrow>
       train c L E s =
         (s0\<lparr>grads := g0,
             calls := calls s0 @ [View im, ZeroGrad (grads s0), Forward (params s0) x]\<rparr>,
          Some (Raised SForward e))) \<and>
    (\<forall>out e. model c (params s0) x = Inr out \<and> criterion c out lb = Inl e \<longrightarrow>
       train c L E s =
         (s0\<lparr>grads := g0,
             calls := calls s0 @ [View im, ZeroGrad (grads s0), Forward (params s0) x,
               Criterion out lb]\<rparr>,
          Some (Raised SCriterion e))) \<and>
    (\<forall>out l g1 e. model c (params s0) x = Inr out \<and> criterion c out lb = Inr l \<and>
         backward c l g0 = (g1, Some e) \<longrightarrow>
       train c L E s =
         (s0\<lparr>grads := g1,
             calls := calls s0 @ [View im, ZeroGrad (grads s0), Forward (params s0) x,
               Criterion out lb, Backward l g0]\<rparr>,
          Some (Raised SBackward e)))"
proof (intro conjI allI impI)
  show "printed s0 = printed sk"
    using assms(4) by (rule run_batches_printed)
next
  fix e
  assume "model c (params s0) x = Inl e"
  with assms(6,7)
  have "training_pass c (batch_at L k i) s0 =
     (s0\<lparr>grads := g0,
         calls := calls s0 @ [View im, ZeroGrad (grads s0), Forward (params s0) x]\<rparr>,
      Inl (Raised SForward e))"
    unfolding assms(5) training_pass_def stmt_defs by simp
  then show "train c L E s =
     (s0\<lparr>grads := g0,
         calls := calls s0 @ [View im, ZeroGrad (grads s0), Forward (params s0) x]\<rparr>,
      Some (Raised SForward e))"
    by (rule train_raises_in_pass [OF assms(1,2,3,4)])
next
  fix out e
  assume "model c (params s0) x = Inr out \<and> criterion c out lb = Inl e"
  then have "model c (params s0) x = Inr out" "criterion c out lb = Inl e" by simp_all
  with assms(6,7)
  have "training_pass c (batch_at L k i) s0 =
     (s0\<lparr>grads := g0,
         calls := calls s0 @ [View im, ZeroGrad (grads s0), Forward (params s0) x,
           Criterion out lb]\<rparr>,
      Inl (Raised SCriterion e))"
    unfolding assms(5) training_pass_def stmt_defs by simp
  then show "train c L E s =
     (s0\<lparr>grads := g0,
         calls := calls s0 @ [View im, ZeroGrad (grads s0), Forward (params s0) x,
           Criterion out lb]\<rparr>,
      Some (Raised SCriterion e))"
    by (rule train_raises_in_pass [OF assms(1,2,3,4)])
next
  fix out l g1 e
  assume "model c (params s0) x = Inr out \<and> criterion c out lb = Inr l \<and>
         backward c l g0 = (g1, Some e)"
  then have "model c (params s0) x = Inr out" "criterion c out lb = Inr l"
    "backward c l g0 = (g1, Some e)" by simp_all
  with assms(6,7)
  have "training_pass c (batch_at L k i) s0 =
     (s0\<lparr>grads := g1,
         calls := calls s0 @ [View im, ZeroGrad (grads s0), Forward (params s0) x,
           Criterion out lb, Backward l g0]\<rparr>,
      Inl (Raised SBackward e))"
    unfolding assms(5) training_pass_def stmt_defs by simp
  then show "train c L E s =
     (s0\<lparr>grads := g1,
         calls := calls s0 @ [View im, ZeroGrad (grads s0), Forward (params s0) x,
           Criterion out lb, Backward l g0]\<rparr>,
      Some (Raised SBackward e))"
    by (rule train_raises_in_pass [OF assms(1,2,3,4)])
qed


theorem failure_surfaces_with_stage_witness:
  "snd (train forward_fails toy_loader 2 toy_state) = Some (Raised SForward ''size mismatch'') \<and>
   params (fst (train forward_fails toy_loader 2 toy_state)) = (3, - 3) \<and>
   printed (fst (train forward_fails toy_loader 2 toy_state)) = [1] \<and>
   length (calls (fst (train forward_fails toy_loader 2 toy_state))) = 24 \<and>
   drop 21 (calls (fst (train forward_fails toy_loader 2 toy_state))) =
     [View 2, ZeroGrad (- 2, 1), Forward (3, - 3) 2] \<and>
   snd (train criterion_fails toy_loader 2 toy_state) = Some (Raised SCriterion ''size mismatch'') \<and>
   params (fst (train criterion_fails toy_loader 2 toy_state)) = (3, - 3) \<and>
   printed (fst (train criterion_fails toy_loader 2 toy_state)) = [1] \<and>
   length (calls (fst (train criterion_fails toy_loader 2 toy_state))) = 25 \<and>
   drop 21 (calls (fst (train criterion_fails toy_loader 2 toy_state))) =
     [View 2, ZeroGrad (- 2, 1), Forward (3, - 3) 2, Criterion 3 1] \<and>
   snd (train backward_fails toy_loader 2 toy_state) = Some (Raised SBackward ''size mismatch'') \<and>
   params (fst (train backward_fails toy_loader 2 toy_state)) = (3, - 3) \<and>
   printed (fst (train backward_fails toy_loader 2 toy_state)) = [1] \<and>
   length (calls (fst (train backward_fails toy_loader 2 toy_state))) = 26 \<and>
   drop 21 (calls (fst (train backward_fails toy_loader 2 toy_state))) =
     [View 2, ZeroGrad (- 2, 1), Forward (3, - 3) 2, Criterion 3 1, Backward 2 (0, 0)]"
proof -
  have h2: "int 1 < 2" by simp
  have h3: "1 < len toy_loader" by (simp add: toy_loader_def)
  have h5: "batch_at toy_loader 1 1 = (2, 1)" by (simp add: toy_loader_def)
  have "snd (train forward_fails toy_loader 2 toy_state) = Some (Raised SForward ''size mismatch'') \<and>
     params (fst (train forward_fails toy_loader 2 toy_state)) = (3, - 3) \<and>
     printed (fst (train forward_fails toy_loader 2 toy_state)) = [1] \<and>
     length (calls (fst (train forward_fails toy_loader 2 toy_state))) = 24 \<and>
     drop 21 (calls (fst (train forward_fails toy_loader 2 toy_state))) = [View 2, ZeroGrad (- 2, 1), Forward (3, - 3) 2]"
  proof -
    have n: "length (calls (fst (train forward_fails toy_loader 2 toy_state))) = 24"
      by code_simp
    define sk where "sk = fst (train forward_fails toy_loader 1 toy_state)"
    define s0 where "s0 = fst (run_batches forward_fails (take 1 (traversal toy_loader 1))
                  (py_zero forward_fails) sk)"
    have "snd (train forward_fails toy_loader 1 toy_state) = None"
      by code_simp
    then have h1: "train forward_fails toy_loader (int 1) toy_state = (sk, None)"
      unfolding sk_def by (simp add: prod_eq_iff)
    have "snd (run_batches forward_fails (take 1 (traversal toy_loader 1))
                  (py_zero forward_fails) sk) = Inr 4"
      unfolding sk_def by code_simp
    then have h4: "run_batches forward_fails (take 1 (traversal toy_loader 1))
                  (py_zero forward_fails) sk = (s0, Inr 4)"
      unfolding s0_def by (simp add: prod_eq_iff)
    have h6: "view forward_fails 2 = Inr 2" by (simp add: forward_fails_def toy_torch_def)
    have h7: "zero_grad forward_fails (grads s0) = ((0, 0), None)"
      by (simp add: forward_fails_def toy_torch_def)
    have p0: "params s0 = (3, - 3)" unfolding s0_def sk_def by code_simp
    have g0: "grads s0 = (- 2, 1)" unfolding s0_def sk_def by code_simp
    have n0: "length (calls s0) = 21" unfolding s0_def sk_def by code_simp
    have pr: "printed sk = [1]" unfolding sk_def by code_simp
    have raises: "model forward_fails (params s0) 2 = Inl ''size mismatch''"
      unfolding p0 by (simp add: forward_fails_def toy_torch_def)
    from failure_surfaces_with_stage [OF h1 h2 h3 h4 h5 h6 h7] raises
    have "printed s0 = printed sk"
      and "train forward_fails toy_loader 2 toy_state =
        (s0\<lparr>grads := (0, 0), calls := calls s0 @ [View 2, ZeroGrad (- 2, 1), Forward (3, - 3) 2]\<rparr>,
         Some (Raised SForward ''size mismatch''))"
      unfolding p0 g0 by blast+
    with n show ?thesis
      by (simp add: p0 n0 pr)
  qed
  moreover
  have "snd (train criterion_fails toy_loader 2 toy_state) = Some (Raised SCriterion ''size mismatch'') \<and>
     params (fst (train criterion_fails toy_loader 2 toy_state)) = (3, - 3) \<and>
     printed (fst (train criterion_fails toy_loader 2 toy_state)) = [1] \<and>
     length (calls (fst (train criterion_fails toy_loader 2 toy_state))) = 25 \<and>
     drop 21 (calls (fst (train criterion_fails toy_loader 2 toy_state))) = [View 2, ZeroGrad (- 2, 1), Forward (3, - 3) 2, Criterion 3 1]"
  proof -
    have n: "length (calls (fst (train criterion_fails toy_loader 2 toy_state))) = 25"
      by code_simp
    define sk where "sk = fst (train criterion_fails toy_loader 1 toy_state)"
    define s0 where "s0 = fst (run_batches criterion_fails (take 1 (traversal toy_loader 1))
                  (py_zero criterion_fails) sk)"
    have "snd (train criterion_fails toy_loader 1 toy_state) = None"
      by code_simp
    then have h1: "train criterion_fails toy_loader (int 1) toy_state = (sk, None)"
      unfolding sk_def by (simp add: prod_eq_iff)
    have "snd (run_batches criterion_fails (take 1 (traversal toy_loader 1))
                  (py_zero criterion_fails) sk) = Inr 4"
      unfolding sk_def by code_simp
    then have h4: "run_batches criterion_fails (take 1 (traversal toy_loader 1))
                  (py_zero criterion_fails) sk = (s0, Inr 4)"
      unfolding s0_def by (simp add: prod_eq_iff)
    have h6: "view criterion_fails 2 = Inr 2" by (simp add: criterion_fails_def toy_torch_def)
    have h7: "zero_grad criterion_fails (grads s0) = ((0, 0), None)"
      by (simp add: criterion_fails_def toy_torch_def)
    have p0: "params s0 = (3, - 3)" unfolding s0_def sk_def by code_simp
    have g0: "grads s0 = (- 2, 1)" unfolding s0_def sk_def by code_simp
    have n0: "length (calls s0) = 21" unfolding s0_def sk_def by code_simp
    have pr: "printed sk = [1]" unfolding sk_def by code_simp
    have raises: "model criterion_fails (params s0) 2 = Inr 3 \<and> criterion criterion_fails 3 1 = Inl ''size mismatch''"
      unfolding p0 by (simp add: criterion_fails_def toy_torch_def)
    from failure_surfaces_with_stage [OF h1 h2 h3 h4 h5 h6 h7] raises
    have "printed s0 = printed sk"
      and "train criterion_fails toy_loader 2 toy_state =
        (s0\<lparr>grads := (0, 0), calls := calls s0 @ [View 2, ZeroGrad (- 2, 1), Forward (3, - 3) 2, Criterion 3 1]\<rparr>,
         Some (Raised SCriterion ''size mismatch''))"
      unfolding p0 g0 by blast+
    with n show ?thesis
      by (simp add: p0 n0 pr)
  qed
  moreover
  have "snd (train backward_fails toy_loader 2 toy_state) = Some (Raised SBackward ''size mismatch'') \<and>
     params (fst (train backward_fails toy_loader 2 toy_state)) = (3, - 3) \<and>
     printed (fst (train backward_fails toy_loader 2 toy_state)) = [1] \<and>
     length (calls (fst (train backward_fails toy_loader 2 toy_state))) = 26 \<and>
     drop 21 (calls (fst (train backward_fails toy_loader 2 toy_state))) = [View 2, ZeroGrad (- 2, 1), Forward (3, - 3) 2, Criterion 3 1, Backward 2 (0, 0)]"
  proof -
    have n: "length (calls (fst (train backward_fails toy_loader 2 toy_state))) = 26"
      by code_simp
    define sk where "sk = fst (train backward_fails toy_loader 1 toy_state)"
    define s0 where "s0 = fst (run_batches backward_fails (take 1 (traversal toy_loader 1))
                  (py_zero backward_fails) sk)"
    have "snd (train backward_fails toy_loader 1 toy_state) = None"
      by code_simp
    then have h1: "train backward_fails toy_loader (int 1) toy_state = (sk, None)"
      unfolding sk_def by (simp add: prod_eq_iff)
    have "snd (run_batches backward_fails (take 1 (traversal toy_loader 1))
                  (py_zero backward_fails) sk) = Inr 4"
      unfolding sk_def by code_simp
    then have h4: "run_batches backward_fails (take 1 (traversal toy_loader 1))
                  (py_zero backward_fails) sk = (s0, Inr 4)"
      unfolding s0_def by (simp add: prod_eq_iff)
    have h6: "view backward_fails 2 = Inr 2" by (simp add: backward_fails_def toy_torch_def)
    have h7: "zero_grad backward_fails (grads s0) = ((0, 0), None)"
      by (simp add: backward_fails_def toy_torch_def)
    have p0: "params s0 = (3, - 3)" unfolding s0_def sk_def by code_simp
    have g0: "grads s0 = (- 2, 1)" unfolding s0_def sk_def by code_simp
    have n0: "length (calls s0) = 21" unfolding s0_def sk_def by code_simp
    have pr: "printed sk = [1]" unfolding sk_def by code_simp
    have raises: "model backward_fails (params s0) 2 = Inr 3 \<and> criterion backward_fails 3 1 = Inr 2 \<and>
        backward backward_fails 2 (0, 0) = ((0, 0), Some ''size mismatch'')"
      unfolding p0 by (simp add: backward_fails_def toy_torch_def)
    from failure_surfaces_with_stage [OF h1 h2 h3 h4 h5 h6 h7] raises
    have "printed s0 = printed sk"
      and "train backward_fails toy_loader 2 toy_state =
        (s0\<lparr>grads := (0, 0), calls := calls s0 @ [View 2, ZeroGrad (- 2, 1), Forward (3, - 3) 2, Criterion 3 1, Backward 2 (0, 0)]\<rparr>,
         Some (Raised SBackward ''size mismatch''))"
      unfolding p0 g0 by blast+
    with n show ?thesis
      by (simp add: p0 n0 pr)
  qed
  ultimately show ?thesis by blast
qed





subsection \<open>Who writes the parameters\<close>

lemma params_after_append:
  "params_after c p (a @ b) = params_after c (params_after c p a) b"
  by (induction c p a rule: params_after.induct) simp_all

lemma forward_reads_append:
  "forward_reads c p (a @ b) \<longleftrightarrow>
   forward_reads c p a \<and> forward_reads c (params_after c p a) b"
  by (induction c p a rule: forward_reads.induct) simp_all

lemma training_pass_frame:
  "training_pass c b s = (s', r) \<Longrightarrow>
   \<exists>tr. calls s' = calls s @ tr \<and> params s' = params_after c (params s) tr \<and>
        forward_reads c (params s) tr"
  unfolding training_pass_def stmt_defs
  by (auto split: sum.splits option.splits prod.splits)

lemma frame_compose:
  assumes "calls s1 = calls s @ t1" "params s1 = params_after c (params s) t1"
    "forward_reads c (params s) t1"
    and "calls s2 = calls s1 @ t2" "params s2 = params_after c (params s1) t2"
    "forward_reads c (params s1) t2"
  shows "\<exists>tr. calls s2 = calls s @ tr \<and> params s2 = params_after c (params s) tr \<and>
           forward_reads c (params s) tr"
  using assms
  by (intro exI [of _ "t1 @ t2"]) (simp add: params_after_append forward_reads_append)

lemma run_batches_frame:
  "run_batches c bs acc s = (s', r) \<Longrightarrow>
   \<exists>tr. calls s' = calls s @ tr \<and> params s' = params_after c (params s) tr \<and>
        forward_reads c (params s) tr"
proof (induction bs arbitrary: acc s)
  case Nil
  then show ?case by simp
next
  case (Cons b bs)
  obtain s1 r1 where p: "training_pass c b s = (s1, r1)" by (cases "training_pass c b s")
  from training_pass_frame [OF p] obtain t1
    where t1: "calls s1 = calls s @ t1" "params s1 = params_after c (params s) t1"
      "forward_reads c (params s) t1"
    by blast
  show ?case
  proof (cases r1)
    case (Inl err)
    with Cons.prems p have "s' = s1" by simp
    with t1 show ?thesis by blast
  next
    case (Inr v)
    with Cons.prems p have "run_batches c bs (py_add c acc v) s1 = (s', r)" by simp
    from Cons.IH [OF this] obtain t2
      where "calls s' = calls s1 @ t2" "params s' = params_after c (params s1) t2"
        "forward_reads c (params s1) t2"
      by blast
    with t1 show ?thesis by (rule frame_compose)
  qed
qed

lemma epoch_frame:
  assumes "epoch c L e s = (s', r)"
  shows "\<exists>tr. calls s' = calls s @ tr \<and> params s' = params_after c (params s) tr \<and>
           forward_reads c (params s) tr"
proof -
  obtain s1 r1 where rb: "run_batches c (traversal L e) (py_zero c) s = (s1, r1)"
    by (cases "run_batches c (traversal L e) (py_zero c) s")
  with assms have "calls s' = calls s1" "params s' = params s1"
    by (auto simp: epoch_def split: sum.splits if_splits)
  with run_batches_frame [OF rb] show ?thesis by simp
qed

lemma run_epochs_frame:
  "run_epochs c L es s = (s', r) \<Longrightarrow>
   \<exists>tr. calls s' = calls s @ tr \<and> params s' = params_after c (params s) tr \<and>
        forward_reads c (params s) tr"
proof (induction es arbitrary: s)
  case Nil
  then show ?case by simp
next
  case (Cons e es)
  obtain s1 r1 where p: "epoch c L e s = (s1, r1)" by (cases "epoch c L e s")
  from epoch_frame [OF p] obtain t1
    where t1: "calls s1 = calls s @ t1" "params s1 = params_after c (params s) t1"
      "forward_reads c (params s) t1"
    by blast
  show ?case
  proof (cases r1)
    case (Some err)
    with Cons.prems p have "s' = s1" by simp
    with t1 show ?thesis by blast
  next
    case None
    with Cons.prems p have "run_epochs c L es s1 = (s', r)" by simp
    from Cons.IH [OF this] obtain t2
      where "calls s' = calls s1 @ t2" "params s' = params_after c (params s1) t2"
        "forward_reads c (params s1) t2"
      by blast
    with t1 show ?thesis by (rule frame_compose)
  qed
qed

text \<open>
  C8. Throughout a run, whether it completes or ends in an exception, the
  parameters are written by the optimizer step only: the final parameters are the
  initial ones with the steps of the history applied in order, every other call
  (\<open>view\<close>, \<open>zero_grad\<close>, the forward pass, the loss, the backward pass, \<open>loss.item()\<close>)
  and the bookkeeping of the loss leaving them as they are; and every forward pass of
  the history read the parameters as all the steps before it had left them. That the
  PyTorch calls other than \<open>step\<close> do not write the parameters is what their types say.
\<close>

theorem params_written_by_step_only:
  "\<exists>tr. calls (fst (train c L E s)) = calls s @ tr \<and>
     params (fst (train c L E s)) = params_after c (params s) tr \<and>
     forward_reads c (params s) tr"
proof -
  have "run_epochs c L [0..<nat E] s = (fst (train c L E s), snd (train c L E s))"
    by (simp add: train_def)
  then show ?thesis by (rule run_epochs_frame)
qed

theorem params_written_by_step_only_witness:
  "\<exists>tr. calls (fst (train toy_torch toy_loader 2 toy_state)) = calls toy_state @ tr \<and>
     params (fst (train toy_torch toy_loader 2 toy_state)) =
       params_after toy_torch (params toy_state) tr \<and>
     forward_reads toy_torch (params toy_state) tr"
  by (rule params_written_by_step_only)

subsection \<open>Two runs\<close>

lemma same_run_refl:
  "params s1 = params s2 \<Longrightarrow> grads s1 = grads s2 \<Longrightarrow> same_run s1 s2 s1 s2"
  by (simp add: same_run_def)

lemma same_run_trans:
  assumes "same_run s1 s2 t1 t2" and "same_run t1 t2 u1 u2"
  shows "same_run s1 s2 u1 u2"
proof -
  from assms(1) obtain tr ms
    where a: "calls t1 = calls s1 @ tr" "calls t2 = calls s2 @ tr"
      "printed t1 = printed s1 @ ms" "printed t2 = printed s2 @ ms"
    unfolding same_run_def by blast
  from assms(2) obtain tr' ms'
    where b: "calls u1 = calls t1 @ tr'" "calls u2 = calls t2 @ tr'"
      "printed u1 = printed t1 @ ms'" "printed u2 = printed t2 @ ms'"
      and c: "params u1 = params u2" "grads u1 = grads u2"
    unfolding same_run_def by blast
  from a b have "calls u1 = calls s1 @ (tr @ tr') \<and> calls u2 = calls s2 @ (tr @ tr')"
    "printed u1 = printed s1 @ (ms @ ms') \<and> printed u2 = printed s2 @ (ms @ ms')"
    by simp_all
  with c show ?thesis unfolding same_run_def by blast
qed

lemma training_pass_same:
  assumes "params s1 = params s2" and "grads s1 = grads s2"
  shows "snd (training_pass c b s1) = snd (training_pass c b s2) \<and>
         same_run s1 s2 (fst (training_pass c b s1)) (fst (training_pass c b s2))"
  using assms unfolding training_pass_def stmt_defs same_run_def
  by (auto split: sum.splits option.splits prod.splits)

lemma run_batches_same:
  assumes "params s1 = params s2" and "grads s1 = grads s2"
  shows "snd (run_batches c bs acc s1) = snd (run_batches c bs acc s2) \<and>
         same_run s1 s2 (fst (run_batches c bs acc s1)) (fst (run_batches c bs acc s2))"
  using assms
proof (induction bs arbitrary: acc s1 s2)
  case Nil
  then show ?case by (simp add: same_run_refl)
next
  case (Cons b bs)
  obtain t1 r1 where p1: "training_pass c b s1 = (t1, r1)" by (cases "training_pass c b s1")
  obtain t2 r2 where p2: "training_pass c b s2 = (t2, r2)" by (cases "training_pass c b s2")
  from training_pass_same [OF Cons.prems, of c b] p1 p2
  have r: "r1 = r2" and sr: "same_run s1 s2 t1 t2" by simp_all
  show ?case
  proof (cases r1)
    case (Inl err)
    with r have "r2 = Inl err" by simp
    with p1 p2 Inl sr show ?thesis by simp
  next
    case (Inr v)
    from sr have "params t1 = params t2" "grads t1 = grads t2"
      unfolding same_run_def by simp_all
    moreover from r Inr have "r2 = Inr v" by simp
    ultimately show ?thesis
      using Cons.IH [of t1 t2 "py_add c acc v"] p1 p2 Inr sr
      by (auto intro: same_run_trans)
  qed
qed

lemma epoch_same:
  assumes "params s1 = params s2" and "grads s1 = grads s2"
    and "traversal L1 e = traversal L2 e" and "len L1 = len L2"
  shows "snd (epoch c L1 e s1) = snd (epoch c L2 e s2) \<and>
         same_run s1 s2 (fst (epoch c L1 e s1)) (fst (epoch c L2 e s2))"
proof -
  let ?bs = "traversal L2 e"
  obtain t1 r1 where p1: "run_batches c ?bs (py_zero c) s1 = (t1, r1)"
    by (cases "run_batches c ?bs (py_zero c) s1")
  obtain t2 r2 where p2: "run_batches c ?bs (py_zero c) s2 = (t2, r2)"
    by (cases "run_batches c ?bs (py_zero c) s2")
  from run_batches_same [OF assms(1,2), of c ?bs "py_zero c"] p1 p2
  have r: "r1 = r2" and sr: "same_run s1 s2 t1 t2" by simp_all
  then show ?thesis
    using p1 p2 assms(3,4)
    by (cases r1) (auto simp: epoch_def same_run_def)
qed

lemma run_epochs_same:
  assumes "params s1 = params s2" and "grads s1 = grads s2"
    and "\<forall>e\<in>set es. traversal L1 e = traversal L2 e" and "len L1 = len L2"
  shows "snd (run_epochs c L1 es s1) = snd (run_epochs c L2 es s2) \<and>
         same_run s1 s2 (fst (run_epochs c L1 es s1)) (fst (run_epochs c L2 es s2))"
  using assms(1,2,3)
proof (induction es arbitrary: s1 s2)
  case Nil
  then show ?case by (simp add: same_run_refl)
next
  case (Cons e es)
  obtain t1 r1 where p1: "epoch c L1 e s1 = (t1, r1)" by (cases "epoch c L1 e s1")
  obtain t2 r2 where p2: "epoch c L2 e s2 = (t2, r2)" by (cases "epoch c L2 e s2")
  from Cons.prems(3) have tr: "traversal L1 e = traversal L2 e"
    and rest: "\<forall>e\<in>set es. traversal L1 e = traversal L2 e" by simp_all
  from epoch_same [OF Cons.prems(1,2) tr assms(4), of c] p1 p2
  have r: "r1 = r2" and sr: "same_run s1 s2 t1 t2" by simp_all
  show ?case
  proof (cases r1)
    case (Some err)
    with r have "r2 = Some err" by simp
    with p1 p2 Some sr show ?thesis by simp
  next
    case None
    from sr have "params t1 = params t2" "grads t1 = grads t2"
      unfolding same_run_def by simp_all
    moreover from r None have "r2 = None" by simp
    ultimately show ?thesis
      using Cons.IH [of t1 t2] rest p1 p2 None sr
      by (auto intro: same_run_trans)
  qed
qed

lemma training_pass_forgets:
  assumes "params s1 = params s2" and "\<forall>g g'. zero_grad c g = zero_grad c g'"
  shows "snd (training_pass c b s1) = snd (training_pass c b s2) \<and>
         params (fst (training_pass c b s1)) = params (fst (training_pass c b s2)) \<and>
         ((\<exists>v. snd (training_pass c b s1) = Inr v) \<longrightarrow>
            grads (fst (training_pass c b s1)) = grads (fst (training_pass c b s2)))"
proof -
  from assms(2) have z: "zero_grad c (grads s1) = zero_grad c (grads s2)" by blast
  show ?thesis
    using assms(1) z unfolding training_pass_def stmt_defs
    by (auto split: sum.splits option.splits prod.splits)
qed

lemma run_batches_forgets:
  assumes "params s1 = params s2" and "\<forall>g g'. zero_grad c g = zero_grad c g'"
  shows "snd (run_batches c bs acc s1) = snd (run_batches c bs acc s2) \<and>
         params (fst (run_batches c bs acc s1)) = params (fst (run_batches c bs acc s2)) \<and>
         (bs \<noteq> [] \<and> (\<exists>a. snd (run_batches c bs acc s1) = Inr a) \<longrightarrow>
            grads (fst (run_batches c bs acc s1)) = grads (fst (run_batches c bs acc s2)))"
proof (cases bs)
  case Nil
  with assms(1) show ?thesis by simp
next
  case (Cons b bs')
  obtain t1 r1 where p1: "training_pass c b s1 = (t1, r1)" by (cases "training_pass c b s1")
  obtain t2 r2 where p2: "training_pass c b s2 = (t2, r2)" by (cases "training_pass c b s2")
  from training_pass_forgets [OF assms, of b] p1 p2
  have r: "r2 = r1" and p: "params t1 = params t2"
    and g: "(\<exists>v. r1 = Inr v) \<longrightarrow> grads t1 = grads t2"
    by simp_all
  show ?thesis
  proof (cases r1)
    case (Inl err)
    with Cons p1 p2 r p show ?thesis by simp
  next
    case (Inr v)
    with g have "grads t1 = grads t2" by blast
    from run_batches_same [OF p this, of c bs' "py_add c acc v"] Cons p1 p2 r Inr
    show ?thesis by (simp add: same_run_def)
  qed
qed

lemma epoch_forgets:
  assumes "params s1 = params s2" and "\<forall>g g'. zero_grad c g = zero_grad c g'"
    and "traversal L1 e = traversal L2 e" and "len L1 = len L2"
  shows "snd (epoch c L1 e s1) = snd (epoch c L2 e s2) \<and>
         params (fst (epoch c L1 e s1)) = params (fst (epoch c L2 e s2)) \<and>
         (\<exists>ms. printed (fst (epoch c L1 e s1)) = printed s1 @ ms \<and>
               printed (fst (epoch c L2 e s2)) = printed s2 @ ms) \<and>
         (snd (epoch c L1 e s1) = None \<longrightarrow>
            grads (fst (epoch c L1 e s1)) = grads (fst (epoch c L2 e s2)))"
proof -
  let ?bs = "traversal L2 e"
  obtain t1 r1 where p1: "run_batches c ?bs (py_zero c) s1 = (t1, r1)"
    by (cases "run_batches c ?bs (py_zero c) s1")
  obtain t2 r2 where p2: "run_batches c ?bs (py_zero c) s2 = (t2, r2)"
    by (cases "run_batches c ?bs (py_zero c) s2")
  from run_batches_forgets [OF assms(1,2), of ?bs "py_zero c"] p1 p2
  have r: "r2 = r1" and p: "params t1 = params t2"
    and g: "?bs \<noteq> [] \<and> (\<exists>a. r1 = Inr a) \<longrightarrow> grads t1 = grads t2"
    by simp_all
  from run_batches_printed [OF p1] run_batches_printed [OF p2]
  have pr: "printed t1 = printed s1" "printed t2 = printed s2" .
  have ne: "?bs \<noteq> []" if "len L2 \<noteq> 0"
    using that length_traversal [of L2 e] by auto
  show ?thesis
  proof (cases r1)
    case (Inl err)
    with p1 p2 r p pr assms(3) show ?thesis
      by (simp add: epoch_def)
  next
    case (Inr a)
    show ?thesis
    proof (cases "len L2 = 0")
      case True
      with Inr p1 p2 r p pr assms(3,4) show ?thesis
        by (simp add: epoch_def)
    next
      case False
      with g ne Inr have "grads t1 = grads t2" by blast
      with False Inr p1 p2 r p pr assms(3,4) show ?thesis
        by (simp add: epoch_def)
    qed
  qed
qed

lemma run_epochs_forgets:
  assumes "params s1 = params s2" and "\<forall>g g'. zero_grad c g = zero_grad c g'"
    and "\<forall>e\<in>set es. traversal L1 e = traversal L2 e" and "len L1 = len L2"
  shows "snd (run_epochs c L1 es s1) = snd (run_epochs c L2 es s2) \<and>
         params (fst (run_epochs c L1 es s1)) = params (fst (run_epochs c L2 es s2)) \<and>
         (\<exists>ms. printed (fst (run_epochs c L1 es s1)) = printed s1 @ ms \<and>
               printed (fst (run_epochs c L2 es s2)) = printed s2 @ ms)"
proof (cases es)
  case Nil
  with assms(1) show ?thesis by simp
next
  case (Cons e es')
  obtain t1 r1 where p1: "epoch c L1 e s1 = (t1, r1)" by (cases "epoch c L1 e s1")
  obtain t2 r2 where p2: "epoch c L2 e s2 = (t2, r2)" by (cases "epoch c L2 e s2")
  from assms(3) Cons have tr: "traversal L1 e = traversal L2 e"
    and rest: "\<forall>e\<in>set es'. traversal L1 e = traversal L2 e" by simp_all
  from epoch_forgets [OF assms(1,2) tr assms(4)] p1 p2
  obtain ms where r: "r2 = r1" and p: "params t1 = params t2"
    and ms: "printed t1 = printed s1 @ ms" "printed t2 = printed s2 @ ms"
    and g: "r1 = None \<longrightarrow> grads t1 = grads t2"
    by auto
  show ?thesis
  proof (cases r1)
    case (Some err)
    with Cons p1 p2 r p ms show ?thesis by simp
  next
    case None
    with g have "grads t1 = grads t2" by blast
    from run_epochs_same [OF p this rest assms(4), of c]
    obtain ms' where "snd (run_epochs c L1 es' t1) = snd (run_epochs c L2 es' t2)"
      "params (fst (run_epochs c L1 es' t1)) = params (fst (run_epochs c L2 es' t2))"
      "printed (fst (run_epochs c L1 es' t1)) = printed t1 @ ms'"
      "printed (fst (run_epochs c L2 es' t2)) = printed t2 @ ms'"
      unfolding same_run_def by blast
    with Cons p1 p2 r None ms show ?thesis by simp
  qed
qed

text \<open>
  C10. Two runs of the cell that start from the same parameters, use the same PyTorch
  calls (the learning rate is part of \<open>step\<close>) and are fed the same finite sequence of
  batches \<open>bs\<close> in each of their epochs, end alike: with the same exception or none,
  the same final parameters and the same values printed, in the same order. The
  gradient slots of the two runs are the same at the start, or \<open>zero_grad\<close> clears
  whatever is in them. What the loaders would yield afterwards, and what was printed or
  called before the cell started, make no difference.
\<close>

theorem train_deterministic:
  assumes "params s1 = params s2"
    and "grads s1 = grads s2 \<or> (\<forall>g g'. zero_grad c g = zero_grad c g')"
    and "\<forall>k<nat E. traversal L1 k = bs \<and> traversal L2 k = bs"
  shows "snd (train c L1 E s1) = snd (train c L2 E s2) \<and>
    params (fst (train c L1 E s1)) = params (fst (train c L2 E s2)) \<and>
    (\<exists>ms. printed (fst (train c L1 E s1)) = printed s1 @ ms \<and>
          printed (fst (train c L2 E s2)) = printed s2 @ ms)"
proof (cases "nat E = 0")
  case True
  with assms(1) show ?thesis by (simp add: train_def)
next
  case False
  with assms(3) have "traversal L1 0 = bs" "traversal L2 0 = bs" by simp_all
  then have "length (traversal L1 0) = length (traversal L2 0)" by simp
  then have len: "len L1 = len L2" by (simp add: length_traversal)
  from assms(3) have same: "\<forall>e\<in>set [0..<nat E]. traversal L1 e = traversal L2 e" by simp
  from assms(2) show ?thesis
  proof
    assume "grads s1 = grads s2"
    from run_epochs_same [OF assms(1) this same len, of c] show ?thesis
      unfolding train_def same_run_def by blast
  next
    assume "\<forall>g g'. zero_grad c g = zero_grad c g'"
    from run_epochs_forgets [OF assms(1) this same len] show ?thesis
      unfolding train_def .
  qed
qed

theorem train_deterministic_witness:
  "snd (train toy_torch replay_loader 2 toy_state) =
     snd (train toy_torch other_loader 2 later_state) \<and>
   params (fst (train toy_torch replay_loader 2 toy_state)) =
     params (fst (train toy_torch other_loader 2 later_state)) \<and>
   (\<exists>ms. printed (fst (train toy_torch replay_loader 2 toy_state)) = printed toy_state @ ms \<and>
         printed (fst (train toy_torch other_loader 2 later_state)) = printed later_state @ ms)"
proof -
  have p: "params toy_state = params later_state"
    by (simp add: toy_state_def later_state_def)
  have g: "grads toy_state = grads later_state \<or>
      (\<forall>g g'. zero_grad toy_torch g = zero_grad toy_torch g')"
    by (simp add: toy_torch_def)
  have "traversal replay_loader k = [(1, 0), (2, 0)] \<and>
        traversal other_loader k = [(1, 0), (2, 0)]" if "k < 2" for k
    using that
    by (simp add: traversal_def replay_loader_def other_loader_def numeral_2_eq_2)
  then have b: "\<forall>k<nat 2. traversal replay_loader k = [(1, 0), (2, 0)] \<and>
        traversal other_loader k = [(1, 0), (2, 0)]"
    by simp
  from train_deterministic [OF p g b] show ?thesis .
qed

end
